theory Spec2Isabelle
  imports Main "HOL-Library.Sublist"
begin

section \<open>JavaScript values shared by the models\<close>

text \<open>
  A value of a TypeScript type \<open>T | null | undefined\<close>. The sources compare with
  \<open>=== null\<close> and \<open>!== undefined\<close>, so the two are kept apart.
\<close>

datatype 'a js = Null | Undefined | Val 'a

text \<open>
  A call that throws is the left summand of its result (\<open>Inl\<close> the thrown value), a call
  that returns the right one.
\<close>

section \<open>Cache locks (src/lib/cacheLock.ts)\<close>

record CacheLock =
  key :: string
  timestamp :: int
  expiry :: int

text \<open>
  The lock manager is a singleton holding \<open>locks: Map<string, CacheLock>\<close>. The state a
  call sees is that table together with the reading of \<open>Date.now()\<close> (milliseconds).
\<close>

record world =
  clock :: int
  locks :: "string \<rightharpoonup> CacheLock"

definition acquireLock :: "string \<Rightarrow> int \<Rightarrow> world \<Rightarrow> bool \<times> world" where
  "acquireLock k expiryMs w =
     (let now = clock w; existingLock = locks w k in
      if (case existingLock of Some l \<Rightarrow> expiry l > now | None \<Rightarrow> False)
      then (False, w)
      else (True, w\<lparr>locks := (locks w)(k \<mapsto> \<lparr>key = k, timestamp = now, expiry = now + expiryMs\<rparr>)\<rparr>))"

definition releaseLock :: "string \<Rightarrow> world \<Rightarrow> world" where
  "releaseLock k w = w\<lparr>locks := (locks w)(k := None)\<rparr>"

definition isLocked :: "string \<Rightarrow> world \<Rightarrow> bool \<times> world" where
  "isLocked k w =
     (case locks w k of
        None \<Rightarrow> (False, w)
      | Some l \<Rightarrow>
          if expiry l \<le> clock w then (False, w\<lparr>locks := (locks w)(k := None)\<rparr>)
          else (True, w))"

text \<open>
  JavaScript runs one task at a time; at every \<open>await\<close> the running call is suspended and
  other tasks run. A \<open>turn\<close> says what happens while the call is suspended once: how much
  time passes and what the other tasks do to the lock table. A schedule is the list of
  turns the call meets, in order. A timer of \<open>ms\<close> milliseconds resumes the call after at
  least \<open>ms\<close> milliseconds; an \<open>await\<close> on a settled promise is a timer of 0.
  When the schedule is used up the model does not know how the call goes on: the value
  is \<open>None\<close>.
\<close>

record turn =
  elapsed :: int
  others :: "(string \<rightharpoonup> CacheLock) \<Rightarrow> (string \<rightharpoonup> CacheLock)"

definition resume :: "int \<Rightarrow> turn \<Rightarrow> world \<Rightarrow> world" where
  "resume ms t w = w\<lparr>clock := clock w + max ms (elapsed t), locks := others t (locks w)\<rparr>"

definition await :: "turn list \<Rightarrow> world \<Rightarrow> (world \<times> turn list) option" where
  "await sched w = (case sched of [] \<Rightarrow> None | t # rest \<Rightarrow> Some (resume 0 t w, rest))"

text \<open>The \<open>while\<close> loop of \<open>waitForLock\<close>; \<open>startTime\<close> is read once before it.\<close>

fun waitLoop ::
  "string \<Rightarrow> int \<Rightarrow> int \<Rightarrow> int \<Rightarrow> turn list \<Rightarrow> world \<Rightarrow> (bool \<times> world \<times> turn list) option" where
  "waitLoop k maxWaitMs pollIntervalMs startTime sched w =
     (if clock w - startTime < maxWaitMs then
        (if \<not> fst (isLocked k w) then Some (True, snd (isLocked k w), sched)
         else (case sched of
                 [] \<Rightarrow> None
               | t # rest \<Rightarrow>
                   waitLoop k maxWaitMs pollIntervalMs startTime rest
                     (resume pollIntervalMs t (snd (isLocked k w)))))
      else Some (False, w, sched))"

definition waitForLock ::
  "string \<Rightarrow> int \<Rightarrow> int \<Rightarrow> turn list \<Rightarrow> world \<Rightarrow> (bool \<times> world \<times> turn list) option" where
  "waitForLock k maxWaitMs pollIntervalMs sched w =
     waitLoop k maxWaitMs pollIntervalMs (clock w) sched w"

text \<open>
  The wrapped function is asynchronous: it takes the world it starts in to its result
  (a value, or \<open>Inl\<close> a thrown error) and the world it leaves. \<open>runLocked\<close> is the
  \<open>try { return await fn() } catch { throw } finally { releaseLock(key) }\<close> block.
\<close>

type_synonym ('e, 'a) operation = "world \<Rightarrow> ('e + 'a js) \<times> world"

definition runLocked :: "string \<Rightarrow> ('e, 'a) operation \<Rightarrow> world \<Rightarrow> ('e + 'a js) \<times> world" where
  "runLocked k fn w = (case fn w of (r, w') \<Rightarrow> (r, releaseLock k w'))"

definition withLock ::
  "string \<Rightarrow> ('e, 'a) operation \<Rightarrow> int \<Rightarrow> int \<Rightarrow> turn list \<Rightarrow> world
     \<Rightarrow> (('e + 'a js) \<times> world \<times> turn list) option" where
  "withLock k fn expiryMs maxWaitMs sched w =
     (case waitForLock k maxWaitMs 100 sched w of
        None \<Rightarrow> None
      | Some (lockAvailable, w1, s1) \<Rightarrow>
          (case await s1 w1 of
             None \<Rightarrow> None
           | Some (w2, s2) \<Rightarrow>
               if \<not> lockAvailable then Some (Inr Null, w2, s2)
               else (case acquireLock k expiryMs w2 of
                       (acquired, w3) \<Rightarrow>
                         (case await s2 w3 of
                            None \<Rightarrow> None
                          | Some (w4, s3) \<Rightarrow>
                              if \<not> acquired then Some (Inr Null, w4, s3)
                              else (case runLocked k fn w4 of
                                      (r, w5) \<Rightarrow> Some (r, w5, s3))))))"

text \<open>
  \<open>safeCacheOperation\<close> with its options resolved by the caller (\<open>lockKey\<close>, \<open>expiryMs\<close>
  and \<open>maxWaitMs\<close> default to \<open>cache_<cacheKey>\<close>, 30000 and 5000); \<open>fallbackValue\<close> is
  \<open>Undefined\<close> when the caller gives none.
\<close>

definition safeCacheOperation ::
  "string \<Rightarrow> ('e, 'a) operation \<Rightarrow> int \<Rightarrow> int \<Rightarrow> 'a js \<Rightarrow> turn list \<Rightarrow> world
     \<Rightarrow> (('e + 'a js) \<times> world \<times> turn list) option" where
  "safeCacheOperation lockKey operation expiryMs maxWaitMs fallbackValue sched w =
     (case withLock lockKey operation expiryMs maxWaitMs sched w of
        None \<Rightarrow> None
      | Some (Inr result, w', s') \<Rightarrow>
          if result = Null \<and> fallbackValue \<noteq> Undefined then Some (Inr fallbackValue, w', s')
          else Some (Inr result, w', s')
      | Some (Inl error, w', s') \<Rightarrow>
          if fallbackValue \<noteq> Undefined then Some (Inr fallbackValue, w', s')
          else Some (Inl error, w', s'))"


subsection \<open>Inputs for the lock examples\<close>

definition expired_world :: world where
  "expired_world = \<lparr>clock = 30000, locks = [''k'' \<mapsto> \<lparr>key = ''k'', timestamp = 0, expiry = 30000\<rparr>]\<rparr>"

definition idle :: turn where
  "idle = \<lparr>elapsed = 0, others = (\<lambda>ls. ls)\<rparr>"

definition failing_operation :: "(string, nat) operation" where
  "failing_operation w = (Inl ''boom'', w)"

definition free_world :: world where
  "free_world = \<lparr>clock = 0, locks = Map.empty\<rparr>"

definition rival_lock :: CacheLock where
  "rival_lock = \<lparr>key = ''cache_k'', timestamp = 0, expiry = 30000\<rparr>"

definition rival_acquires :: turn where
  "rival_acquires = \<lparr>elapsed = 0, others = (\<lambda>ls. ls(''cache_k'' \<mapsto> rival_lock))\<rparr>"

definition constant_operation :: "(string, nat) operation" where
  "constant_operation w = (Inr (Val 1), w)"

definition held_world :: world where
  "held_world = \<lparr>clock = 0, locks = [''cache_k'' \<mapsto> rival_lock]\<rparr>"

section \<open>The bottle-data cache and the contract reads (src/hooks/useDriftBottle.ts)\<close>

subsection \<open>A JavaScript \<open>Map\<close>\<close>

text \<open>
  A \<open>Map\<close> iterates in insertion order, so it is an association list with distinct keys,
  oldest entry first: \<open>set\<close> on a key that is present replaces its value in place, on a
  new key it appends the entry; \<open>size\<close> is the length of the list.
\<close>

type_synonym ('k, 'v) jsmap = "('k \<times> 'v) list"

definition Map_has :: "'k \<Rightarrow> ('k, 'v) jsmap \<Rightarrow> bool" where
  "Map_has k m = (map_of m k \<noteq> None)"

definition Map_get :: "'k \<Rightarrow> ('k, 'v) jsmap \<Rightarrow> 'v option" where
  "Map_get k m = map_of m k"

definition Map_delete :: "'k \<Rightarrow> ('k, 'v) jsmap \<Rightarrow> ('k, 'v) jsmap" where
  "Map_delete k m = filter (\<lambda>e. fst e \<noteq> k) m"

primrec originalSet :: "'k \<Rightarrow> 'v \<Rightarrow> ('k, 'v) jsmap \<Rightarrow> ('k, 'v) jsmap" where
  "originalSet k v [] = [(k, v)]"
| "originalSet k v (e # m) = (if fst e = k then (k, v) # m else e # originalSet k v m)"

subsection \<open>The cache with its overridden \<open>set\<close>\<close>

definition MAX_CACHE_SIZE :: nat where
  "MAX_CACHE_SIZE = 100"

text \<open>
  \<open>cache.keys().next().value\<close> is the first key in insertion order (\<open>undefined\<close> on an
  empty map, where \<open>delete\<close> then removes nothing).
\<close>

definition cache_set :: "'k \<Rightarrow> 'v \<Rightarrow> ('k, 'v) jsmap \<Rightarrow> ('k, 'v) jsmap" where
  "cache_set k v cache =
     originalSet k v
       (if length cache \<ge> MAX_CACHE_SIZE
        then (case cache of [] \<Rightarrow> cache | firstEntry # _ \<Rightarrow> Map_delete (fst firstEntry) cache)
        else cache)"

subsection \<open>What the hook closes over, and what a contract read gives\<close>

text \<open>
  The account values of \<open>useAccount\<close>, whether \<open>DRIFT_BOTTLE_CONTRACT_ADDRESS\<close> is set,
  and the state \<open>connectionStable\<close>; \<open>actuallyConnected\<close> is the memoised value computed
  from them.
\<close>

record hook =
  contractConfigured :: bool
  address :: "string option"
  isConnected :: bool
  isConnecting :: bool
  isReconnecting :: bool
  status :: string
  connectionStable :: bool

definition actuallyConnected :: "hook \<Rightarrow> bool" where
  "actuallyConnected h =
     ((case address h of None \<Rightarrow> False | Some a \<Rightarrow> a \<noteq> [] \<and> a \<noteq> ''0x'' \<and> length a = 42)
      \<and> (isConnected h \<and> status h = ''connected'')
      \<and> (\<not> isConnecting h \<and> \<not> isReconnecting h))"

text \<open>
  A thrown value, as far as the \<open>catch\<close> blocks look at it: its \<open>message\<close> (if it has
  one), its \<open>code\<close> (if it has one) and \<open>String(error)\<close>.
\<close>

record thrown =
  err_message :: "string option"
  err_code :: "string option"
  err_string :: string

definition errorMsg :: "thrown \<Rightarrow> string" where
  "errorMsg e = (case err_message e of Some m \<Rightarrow> if m = [] then err_string e else m
                                      | None \<Rightarrow> err_string e)"

definition str_includes :: "string \<Rightarrow> string \<Rightarrow> bool" where
  "str_includes s needle = sublist needle s"

definition isContractError :: "thrown \<Rightarrow> bool" where
  "isContractError e =
     (str_includes (errorMsg e) ''Bottle does not exist'' \<or>
      str_includes (errorMsg e) ''execution reverted'' \<or>
      str_includes (errorMsg e) ''invalid bottle'' \<or>
      err_code e = Some ''CALL_EXCEPTION'')"

definition isNetworkError :: "thrown \<Rightarrow> bool" where
  "isNetworkError e =
     (str_includes (errorMsg e) ''network'' \<or>
      str_includes (errorMsg e) ''timeout'' \<or>
      str_includes (errorMsg e) ''connection'' \<or>
      str_includes (errorMsg e) ''fetch'' \<or>
      err_code e = Some ''NETWORK_ERROR'' \<or>
      err_code e = Some ''TIMEOUT'')"

text \<open>
  The cache holds \<open>{ data, timestamp }\<close> objects under the keys \<open>bottle_<id>\<close> and
  \<open>replies_<id>\<close>; \<open>data\<close> is the display form of a bottle or the array of the display
  forms of its replies. The types \<open>'d\<close> and \<open>'r\<close> of the display forms are left open.
\<close>

datatype ('d, 'r) payload = CachedBottle 'd | CachedReplies "'r list"

record ('d, 'r) entry =
  data :: "('d, 'r) payload"
  cached_at :: int

type_synonym ('d, 'r) cache = "(string, ('d, 'r) entry) jsmap"

text \<open>
  One run of the \<open>try\<close> block of \<open>readBottleData\<close>: the time read when the cache is
  looked up, what \<open>readContract\<close> with \<open>validateBottleData\<close> and \<open>sanitizeForDisplay\<close> came
  to (a throw anywhere in the block, a falsy result, a result that \<open>validateBottleData\<close>
  rejects, or the display data), and the time read when the result is cached. The
  environment gives one such run for each value of \<open>retryCount\<close>.
\<close>

datatype 'd read_outcome = Threw thrown | Falsy | Rejected | Read 'd

record 'd attempt =
  checked_at :: int
  outcome :: "'d read_outcome"
  stored_at :: int

text \<open>What a call did that can be seen from outside: contract reads and timer waits.\<close>

datatype event = ContractRead | Sleep int

fun digit :: "nat \<Rightarrow> char" where
  "digit n = char_of (48 + n)"

function decimal :: "nat \<Rightarrow> string" where
  "decimal n = (if n < 10 then [digit n] else decimal (n div 10) @ [digit (n mod 10)])"
  by pat_completeness auto
termination
  by (relation "measure id") auto

definition bottle_key :: "int \<Rightarrow> string" where
  "bottle_key bottleId = ''bottle_'' @ decimal (nat bottleId)"

definition replies_key :: "int \<Rightarrow> string" where
  "replies_key bottleId = ''replies_'' @ decimal (nat bottleId)"

text \<open>
  The cache lookup at the head of both readers: a fresh entry is returned, a stale one
  (or one whose timestamp is falsy) is deleted.
\<close>

definition lookup_fresh ::
  "string \<Rightarrow> int \<Rightarrow> int \<Rightarrow> ('d, 'r) cache \<Rightarrow> ('d, 'r) payload option \<times> ('d, 'r) cache" where
  "lookup_fresh cacheKey ttl now cache =
     (if Map_has cacheKey cache then
        (case Map_get cacheKey cache of
           Some cached \<Rightarrow>
             if cached_at cached \<noteq> 0 \<and> now - cached_at cached < ttl
             then (Some (data cached), cache)
             else (None, Map_delete cacheKey cache)
         | None \<Rightarrow> (None, Map_delete cacheKey cache))
      else (None, cache))"

type_synonym ('d, 'r) read_result = "('d, 'r) payload js \<times> ('d, 'r) cache \<times> event list"

definition after_events :: "event list \<Rightarrow> ('d, 'r) read_result \<Rightarrow> ('d, 'r) read_result" where
  "after_events evs r = (case r of (v, cache, evs') \<Rightarrow> (v, cache, evs @ evs'))"

function readBottleData ::
  "hook \<Rightarrow> (nat \<Rightarrow> 'd attempt) \<Rightarrow> int \<Rightarrow> nat \<Rightarrow> ('d, 'r) cache \<Rightarrow> ('d, 'r) read_result" where
  "readBottleData h env bottleId retryCount cache =
     (if bottleId \<le> 0 then (Null, cache, [])
      else if \<not> contractConfigured h then (Null, cache, [])
      else if \<not> actuallyConnected h \<or> \<not> connectionStable h then (Null, cache, [])
      else
        (case lookup_fresh (bottle_key bottleId) (5 * 60 * 1000) (checked_at (env retryCount)) cache of
           (Some d, cache1) \<Rightarrow> (Val d, cache1, [])
         | (None, cache1) \<Rightarrow>
             (case outcome (env retryCount) of
                Falsy \<Rightarrow> (Null, cache1, [ContractRead])
              | Rejected \<Rightarrow> (Null, cache1, [ContractRead])
              | Read displayData \<Rightarrow>
                  (Val (CachedBottle displayData),
                   cache_set (bottle_key bottleId)
                     \<lparr>data = CachedBottle displayData, cached_at = stored_at (env retryCount)\<rparr> cache1,
                   [ContractRead])
              | Threw error \<Rightarrow>
                  if isContractError error then (Null, cache1, [ContractRead])
                  else if retryCount < 3 \<and> isNetworkError error then
                    after_events [ContractRead, Sleep (min (2 ^ retryCount * 1000) 8000)]
                      (readBottleData h env bottleId (retryCount + 1) cache1)
                  else (Null, cache1, [ContractRead]))))"
  by pat_completeness auto
termination
  by (relation "measure (\<lambda>(h, env, bottleId, retryCount, cache). 3 - retryCount)") auto

text \<open>
  One run of the \<open>try\<close> block of \<open>readBottleReplies\<close>: a throw, no reply ids (a falsy
  result, a result that is not an array, or an empty array), or the validated display
  replies (a reply whose own read throws is dropped inside the block).
\<close>

datatype 'r replies_outcome = RepliesThrew thrown | NoReplies | ReadReplies "'r list"

record 'r replies_attempt =
  r_checked_at :: int
  r_outcome :: "'r replies_outcome"
  r_stored_at :: int

function readBottleReplies ::
  "hook \<Rightarrow> (nat \<Rightarrow> 'r replies_attempt) \<Rightarrow> int \<Rightarrow> nat \<Rightarrow> ('d, 'r) cache \<Rightarrow> ('d, 'r) read_result" where
  "readBottleReplies h env bottleId retryCount cache =
     (if bottleId \<le> 0 then (Val (CachedReplies []), cache, [])
      else if \<not> contractConfigured h then (Val (CachedReplies []), cache, [])
      else if \<not> actuallyConnected h \<or> \<not> connectionStable h then (Val (CachedReplies []), cache, [])
      else
        (case lookup_fresh (replies_key bottleId) (3 * 60 * 1000) (r_checked_at (env retryCount)) cache of
           (Some d, cache1) \<Rightarrow> (Val d, cache1, [])
         | (None, cache1) \<Rightarrow>
             (case r_outcome (env retryCount) of
                NoReplies \<Rightarrow>
                  (Val (CachedReplies []),
                   cache_set (replies_key bottleId)
                     \<lparr>data = CachedReplies [], cached_at = r_stored_at (env retryCount)\<rparr> cache1,
                   [ContractRead])
              | ReadReplies displayReplies \<Rightarrow>
                  (Val (CachedReplies displayReplies),
                   cache_set (replies_key bottleId)
                     \<lparr>data = CachedReplies displayReplies, cached_at = r_stored_at (env retryCount)\<rparr> cache1,
                   [ContractRead])
              | RepliesThrew error \<Rightarrow>
                  if retryCount < 2 \<and> isNetworkError error then
                    after_events [ContractRead, Sleep (min (2 ^ retryCount * 1000) 4000)]
                      (readBottleReplies h env bottleId (retryCount + 1) cache1)
                  else (Val (CachedReplies []), cache1, [ContractRead]))))"
  by pat_completeness auto
termination
  by (relation "measure (\<lambda>(h, env, bottleId, retryCount, cache). 2 - retryCount)") auto

text \<open>Any sequence of calls of the two readers on one cache.\<close>

datatype ('d, 'r) reader_call =
    CallReadBottleData hook "nat \<Rightarrow> 'd attempt" int
  | CallReadBottleReplies hook "nat \<Rightarrow> 'r replies_attempt" int

fun run_call :: "('d, 'r) reader_call \<Rightarrow> ('d, 'r) cache \<Rightarrow> ('d, 'r) cache" where
  "run_call (CallReadBottleData h env bottleId) cache = fst (snd (readBottleData h env bottleId 0 cache))"
| "run_call (CallReadBottleReplies h env bottleId) cache = fst (snd (readBottleReplies h env bottleId 0 cache))"

fun run_calls :: "('d, 'r) reader_call list \<Rightarrow> ('d, 'r) cache \<Rightarrow> ('d, 'r) cache" where
  "run_calls [] cache = cache"
| "run_calls (c # cs) cache = run_calls cs (run_call c cache)"

fun sleeps :: "event list \<Rightarrow> int list" where
  "sleeps [] = []"
| "sleeps (ContractRead # evs) = sleeps evs"
| "sleeps (Sleep ms # evs) = ms # sleeps evs"

definition reads :: "event list \<Rightarrow> nat" where
  "reads evs = length (filter (\<lambda>e. e = ContractRead) evs)"

definition events :: "('d, 'r) read_result \<Rightarrow> event list" where
  "events r = snd (snd r)"

definition cache_after :: "('d, 'r) read_result \<Rightarrow> ('d, 'r) cache" where
  "cache_after r = fst (snd r)"

text \<open>The delay before the retry that follows attempt \<open>k\<close>, in milliseconds.\<close>

definition backoff :: "nat \<Rightarrow> int" where
  "backoff k = min (2 ^ k * 1000) 8000"

text \<open>The invariant of the cache: distinct keys, and no more entries than the bound.\<close>

definition cache_ok :: "('k, 'v) jsmap \<Rightarrow> bool" where
  "cache_ok cache = (distinct (map fst cache) \<and> length cache \<le> MAX_CACHE_SIZE)"

subsection \<open>Inputs for the reader examples\<close>

definition connected_hook :: hook where
  "connected_hook = \<lparr>contractConfigured = True,
     address = Some ''0x00000000000000000000000000000000000000aa'', isConnected = True,
     isConnecting = False, isReconnecting = False, status = ''connected'',
     connectionStable = True\<rparr>"

definition network_failure :: thrown where
  "network_failure = \<lparr>err_message = Some ''network request failed'', err_code = None,
     err_string = ''Error: network request failed''\<rparr>"

definition reverted_failure :: thrown where
  "reverted_failure = \<lparr>err_message = Some ''execution reverted: Bottle does not exist'',
     err_code = None, err_string = ''Error: execution reverted: Bottle does not exist''\<rparr>"

definition always_failing :: "nat \<Rightarrow> unit attempt" where
  "always_failing k = \<lparr>checked_at = 1000, outcome = Threw network_failure, stored_at = 1000\<rparr>"

definition reverting :: "nat \<Rightarrow> unit attempt" where
  "reverting k = \<lparr>checked_at = 1000, outcome = Threw reverted_failure, stored_at = 1000\<rparr>"

definition full_cache :: "(nat, unit) jsmap" where
  "full_cache = map (\<lambda>i. (i, ())) [0..<100]"

section \<open>Content validation and rate limiting (lib/security.ts)\<close>

subsection \<open>JavaScript strings and regular expressions\<close>

text \<open>
  A JavaScript string is a sequence of UTF-16 code units; \<open>length\<close> counts code units.
  User content is such a sequence; an ASCII literal of the source is written as an
  Isabelle string and converted.
\<close>

type_synonym ustring = "nat list"

definition ascii :: "string \<Rightarrow> ustring" where
  "ascii s = map of_char s"

text \<open>
  White space and line terminators: what \<open>String.prototype.trim\<close> strips and what \<open>\s\<close>
  matches.
\<close>

definition isSpace :: "nat \<Rightarrow> bool" where
  "isSpace c = (c \<in> {9, 10, 11, 12, 13, 32, 160, 5760, 8232, 8233, 8239, 8287, 12288, 65279}
                \<or> (8192 \<le> c \<and> c \<le> 8202))"

definition isWord :: "nat \<Rightarrow> bool" where
  "isWord c = ((48 \<le> c \<and> c \<le> 57) \<or> (65 \<le> c \<and> c \<le> 90) \<or> c = 95 \<or> (97 \<le> c \<and> c \<le> 122))"

definition isLineTerminator :: "nat \<Rightarrow> bool" where
  "isLineTerminator c = (c \<in> {10, 13, 8232, 8233})"

definition trim :: "ustring \<Rightarrow> ustring" where
  "trim s = rev (dropWhile isSpace (rev (dropWhile isSpace s)))"

text \<open>
  The regular expressions of \<open>DANGEROUS_PATTERNS\<close> carry the flags \<open>g\<close> and \<open>i\<close> and not
  \<open>u\<close>: they work on code units, and a literal character matches ignoring ASCII case
  (the canonicalisation of the flag \<open>i\<close> never maps a code unit of 128 or more to one
  below 128).
\<close>

datatype cls = Chr nat | NotChr nat | Word | Space | Dot

definition upper :: "nat \<Rightarrow> nat" where
  "upper c = (if 97 \<le> c \<and> c \<le> 122 then c - 32 else c)"

fun cls_matches :: "cls \<Rightarrow> nat \<Rightarrow> bool" where
  "cls_matches (Chr a) c = (upper c = upper a)"
| "cls_matches (NotChr a) c = (upper c \<noteq> upper a)"
| "cls_matches Word c = isWord c"
| "cls_matches Space c = isSpace c"
| "cls_matches Dot c = (\<not> isLineTerminator c)"

datatype rx = Zero | Eps | Atom cls | Alt rx rx | Seq rx rx | Star rx

fun nullable :: "rx \<Rightarrow> bool" where
  "nullable Zero = False"
| "nullable Eps = True"
| "nullable (Atom a) = False"
| "nullable (Alt r s) = (nullable r \<or> nullable s)"
| "nullable (Seq r s) = (nullable r \<and> nullable s)"
| "nullable (Star r) = True"

fun deriv :: "nat \<Rightarrow> rx \<Rightarrow> rx" where
  "deriv c Zero = Zero"
| "deriv c Eps = Zero"
| "deriv c (Atom a) = (if cls_matches a c then Eps else Zero)"
| "deriv c (Alt r s) = Alt (deriv c r) (deriv c s)"
| "deriv c (Seq r s) =
     (if nullable r then Alt (Seq (deriv c r) s) (deriv c s) else Seq (deriv c r) s)"
| "deriv c (Star r) = Seq (deriv c r) (Star r)"

text \<open>
  The length of the shortest match of \<open>r\<close> that starts at the head of the string. For each
  pattern of \<open>DANGEROUS_PATTERNS\<close> this is the match the backtracking matcher finds at
  that start: the greedy parts \<open>[^>]*\<close>, \<open>\w+\<close> and \<open>\s*\<close> are each followed by a
  character they cannot consume, so they have one way to match, and \<open>.*?\<close> is lazy.
\<close>

fun shortest :: "rx \<Rightarrow> ustring \<Rightarrow> nat option" where
  "shortest r [] = (if nullable r then Some 0 else None)"
| "shortest r (c # cs) =
     (if nullable r then Some 0 else map_option Suc (shortest (deriv c r) cs))"

text \<open>The end of the first match, trying each start position from the head on.\<close>

fun search :: "rx \<Rightarrow> ustring \<Rightarrow> nat option" where
  "search r [] = shortest r []"
| "search r (c # cs) =
     (case shortest r (c # cs) of
        Some n \<Rightarrow> Some n
      | None \<Rightarrow> map_option Suc (search r cs))"

text \<open>
  \<open>RegExp.prototype.test\<close> of a regular expression with the flag \<open>g\<close>: the search starts
  at \<open>lastIndex\<close>; a match leaves \<open>lastIndex\<close> at its end, a failure resets it to 0.
\<close>

definition test :: "rx \<Rightarrow> nat \<Rightarrow> ustring \<Rightarrow> bool \<times> nat" where
  "test r lastIndex s =
     (if lastIndex > length s then (False, 0)
      else (case search r (drop lastIndex s) of
              Some e \<Rightarrow> (True, lastIndex + e)
            | None \<Rightarrow> (False, 0)))"

definition lit :: "string \<Rightarrow> rx" where
  "lit s = foldr (\<lambda>c r. Seq (Atom (Chr (of_char c))) r) s Eps"

definition seqs :: "rx list \<Rightarrow> rx" where
  "seqs rs = foldr Seq rs Eps"

definition element :: "string \<Rightarrow> rx" where
  "element name =
     seqs [lit (''<'' @ name), Star (Atom (NotChr 62)), lit ''>'', Star (Atom Dot),
           lit (''</'' @ name @ ''>'')]"

definition DANGEROUS_PATTERNS :: "rx list" where
  "DANGEROUS_PATTERNS =
     [element ''script'',
      lit ''javascript:'',
      lit ''data:text/html'',
      seqs [lit ''on'', Atom Word, Star (Atom Word), Star (Atom Space), lit ''=''],
      element ''iframe'',
      element ''object'',
      element ''embed'',
      element ''form'',
      seqs [lit ''<input'', Star (Atom (NotChr 62)), lit ''>''],
      seqs [lit ''expression'', Star (Atom Space), lit ''(''],
      seqs [lit ''url'', Star (Atom Space), lit ''('']]"

text \<open>
  The \<open>for\<close> loop over the patterns, with the \<open>lastIndex\<close> of each: it stops at the first
  pattern that matches. The result says whether one matched, and gives the new
  \<open>lastIndex\<close> values (a value missing from the list is 0, the initial one).
\<close>

fun anyDangerous :: "rx list \<Rightarrow> nat list \<Rightarrow> ustring \<Rightarrow> bool \<times> nat list" where
  "anyDangerous [] is s = (False, [])"
| "anyDangerous (p # ps) is s =
     (case test p (case is of [] \<Rightarrow> 0 | i # _ \<Rightarrow> i) s of
        (True, i') \<Rightarrow> (True, i' # tl is)
      | (False, i') \<Rightarrow> (case anyDangerous ps (tl is) s of (found, is') \<Rightarrow> (found, i' # is')))"

text \<open>
  \<open>VALIDATION_PATTERNS.content\<close> and \<open>.reply\<close> carry the flag \<open>u\<close> and not \<open>g\<close>: they
  work on code points (a surrogate pair is one code point) and keep no state.
\<close>

fun codePoints :: "ustring \<Rightarrow> nat list" where
  "codePoints (h # l # s) =
     (if 55296 \<le> h \<and> h \<le> 56319 \<and> 56320 \<le> l \<and> l \<le> 57343
      then (65536 + (h - 55296) * 1024 + (l - 56320)) # codePoints s
      else h # codePoints (l # s))"
| "codePoints s = s"

definition punctuation :: "nat list" where
  "punctuation =
     [46, 44, 33, 63, 59, 58, 39, 34, 40, 41, 91, 93, 45, 8212, 8211, 8230, 12290, 65292,
      65281, 65311, 65307, 65306, 65288, 65289, 12304, 12305, 12298, 12299, 12289, 65374]"

definition replyChar :: "nat \<Rightarrow> bool" where
  "replyChar c = (isWord c \<or> isSpace c \<or> (19968 \<le> c \<and> c \<le> 40959) \<or> c \<in> set punctuation)"

definition contentChar :: "nat \<Rightarrow> bool" where
  "contentChar c =
     (replyChar c \<or> (13312 \<le> c \<and> c \<le> 19903) \<or> (131072 \<le> c \<and> c \<le> 173791)
      \<or> (173824 \<le> c \<and> c \<le> 177983) \<or> (177984 \<le> c \<and> c \<le> 178207)
      \<or> (178208 \<le> c \<and> c \<le> 183983) \<or> (183984 \<le> c \<and> c \<le> 191471))"

definition content_pattern_test :: "ustring \<Rightarrow> bool" where
  "content_pattern_test s = (codePoints s \<noteq> [] \<and> list_all contentChar (codePoints s))"

definition reply_pattern_test :: "ustring \<Rightarrow> bool" where
  "reply_pattern_test s =
     (1 \<le> length (codePoints s) \<and> length (codePoints s) \<le> 500 \<and> list_all replyChar (codePoints s))"

subsection \<open>The sanitizers\<close>

datatype sanitize_error = ContentEmpty | ContentTooLong | ContentUnsafe | ContentUnsupported

definition MAX_LENGTHS_content :: nat where
  "MAX_LENGTHS_content = 500"

definition MAX_LENGTHS_reply :: nat where
  "MAX_LENGTHS_reply = 500"

text \<open>
  The state of the module is the \<open>lastIndex\<close> of each dangerous pattern. \<open>DOMPurify\<close> is a
  library outside the repository: its effect on the validated text is the parameter
  \<open>purify\<close>.
\<close>

definition sanitizeBottleContent ::
  "(ustring \<Rightarrow> ustring) \<Rightarrow> nat list \<Rightarrow> ustring \<Rightarrow> (sanitize_error + ustring) \<times> nat list" where
  "sanitizeBottleContent purify lastIndexes content =
     (if content = [] then (Inl ContentEmpty, lastIndexes)
      else let trimmed = trim content in
        if length trimmed = 0 then (Inl ContentEmpty, lastIndexes)
        else if length trimmed > MAX_LENGTHS_content then (Inl ContentTooLong, lastIndexes)
        else (case anyDangerous DANGEROUS_PATTERNS lastIndexes trimmed of
                (True, lastIndexes') \<Rightarrow> (Inl ContentUnsafe, lastIndexes')
              | (False, lastIndexes') \<Rightarrow>
                  if \<not> content_pattern_test trimmed then (Inl ContentUnsupported, lastIndexes')
                  else (Inr (purify trimmed), lastIndexes')))"

definition sanitizeReplyContent ::
  "(ustring \<Rightarrow> ustring) \<Rightarrow> nat list \<Rightarrow> ustring \<Rightarrow> (sanitize_error + ustring) \<times> nat list" where
  "sanitizeReplyContent purify lastIndexes content =
     (if content = [] then (Inl ContentEmpty, lastIndexes)
      else let trimmed = trim content in
        if length trimmed = 0 then (Inl ContentEmpty, lastIndexes)
        else if length trimmed > MAX_LENGTHS_reply then (Inl ContentTooLong, lastIndexes)
        else (case anyDangerous DANGEROUS_PATTERNS lastIndexes trimmed of
                (True, lastIndexes') \<Rightarrow> (Inl ContentUnsafe, lastIndexes')
              | (False, lastIndexes') \<Rightarrow>
                  if \<not> reply_pattern_test trimmed then (Inl ContentUnsupported, lastIndexes')
                  else (Inr (purify trimmed), lastIndexes')))"

text \<open>
  \<open>validateBottleId\<close> on a number: its decimal form must be all digits, and its value at
  most \<open>Number.MAX_SAFE_INTEGER\<close>. Bottle ids are integers here.
\<close>

definition validateBottleId :: "int \<Rightarrow> bool" where
  "validateBottleId n = (0 \<le> n \<and> n \<le> 9007199254740991)"

subsection \<open>The rate limiter\<close>

text \<open>\<open>attempts: Map<string, number[]>\<close>; only lookups and stores, so a partial map.\<close>

type_synonym limiter = "string \<rightharpoonup> int list"

definition isAllowed :: "string \<Rightarrow> nat \<Rightarrow> int \<Rightarrow> int \<Rightarrow> limiter \<Rightarrow> bool \<times> limiter" where
  "isAllowed identifier maxAttempts windowMs now attempts =
     (let windowStart = now - windowMs;
          userAttempts = (case attempts identifier of None \<Rightarrow> [] | Some ts \<Rightarrow> ts);
          validAttempts = filter (\<lambda>timestamp. timestamp > windowStart) userAttempts
      in if length validAttempts \<ge> maxAttempts
         then (False, attempts(identifier \<mapsto> validAttempts))
         else (True, attempts(identifier \<mapsto> validAttempts @ [now])))"

section \<open>The writing callbacks of the hook (src/hooks/useDriftBottle.ts)\<close>

datatype contract_write =
    WriteSendBottle ustring
  | WriteReplyToBottle int ustring
  | WriteSkipBottle int

datatype hook_error =
    NotConnected
  | ContractNotConfigured
  | InvalidBottleId
  | RateLimit
  | ContentValidationFailed sanitize_error
  | ReplyValidationFailed sanitize_error
  | BottleSendFailed
  | BottleReplyFailed
  | SkipFailed thrown

text \<open>
  What the callbacks change: the attempts of the module's \<open>rateLimiter\<close>, the \<open>lastIndex\<close>
  values of the dangerous patterns, and the ledger writes requested through
  \<open>writeContract\<close>, each with the time of the call (oldest first).
\<close>

record client =
  attempts :: limiter
  lastIndexes :: "nat list"
  written :: "(int \<times> contract_write) list"

definition initial_client :: client where
  "initial_client = \<lparr>attempts = Map.empty, lastIndexes = [0, 0, 0, 0, 0, 0, 0, 0, 0, 0, 0],
     written = []\<rparr>"

text \<open>\<open>address || 'anonymous'\<close>\<close>

definition limiter_id :: "hook \<Rightarrow> string" where
  "limiter_id h = (case address h of None \<Rightarrow> ''anonymous''
                                   | Some a \<Rightarrow> if a = [] then ''anonymous'' else a)"

text \<open>
  Each callback takes the time of the call and whether \<open>writeContract\<close> will throw
  (\<open>Some\<close> the thrown value) or resolve (\<open>None\<close>).
\<close>

definition sendBottle ::
  "hook \<Rightarrow> (ustring \<Rightarrow> ustring) \<Rightarrow> int \<Rightarrow> thrown option \<Rightarrow> ustring \<Rightarrow> client
     \<Rightarrow> (hook_error + unit) \<times> client" where
  "sendBottle h purify now writeThrows content c =
     (if \<not> actuallyConnected h \<or> \<not> connectionStable h then (Inl NotConnected, c)
      else if \<not> contractConfigured h then (Inl ContractNotConfigured, c)
      else (case isAllowed (limiter_id h) 5 60000 now (attempts c) of
              (False, attempts') \<Rightarrow> (Inl RateLimit, c\<lparr>attempts := attempts'\<rparr>)
            | (True, attempts') \<Rightarrow>
                (case sanitizeBottleContent purify (lastIndexes c) content of
                   (Inl error, lastIndexes') \<Rightarrow>
                     (Inl (ContentValidationFailed error),
                      c\<lparr>attempts := attempts', lastIndexes := lastIndexes'\<rparr>)
                 | (Inr sanitizedContent, lastIndexes') \<Rightarrow>
                     (case writeThrows of Some err \<Rightarrow> Inl BottleSendFailed | None \<Rightarrow> Inr (),
                      c\<lparr>attempts := attempts', lastIndexes := lastIndexes',
                        written := written c @ [(now, WriteSendBottle sanitizedContent)]\<rparr>))))"

definition replyToBottle ::
  "hook \<Rightarrow> (ustring \<Rightarrow> ustring) \<Rightarrow> int \<Rightarrow> thrown option \<Rightarrow> int \<Rightarrow> ustring \<Rightarrow> client
     \<Rightarrow> (hook_error + unit) \<times> client" where
  "replyToBottle h purify now writeThrows bottleId content c =
     (if \<not> actuallyConnected h \<or> \<not> connectionStable h then (Inl NotConnected, c)
      else if \<not> contractConfigured h then (Inl ContractNotConfigured, c)
      else if \<not> validateBottleId bottleId then (Inl InvalidBottleId, c)
      else (case isAllowed (limiter_id h @ ''_reply'') 10 60000 now (attempts c) of
              (False, attempts') \<Rightarrow> (Inl RateLimit, c\<lparr>attempts := attempts'\<rparr>)
            | (True, attempts') \<Rightarrow>
                (case sanitizeReplyContent purify (lastIndexes c) content of
                   (Inl error, lastIndexes') \<Rightarrow>
                     (Inl (ReplyValidationFailed error),
                      c\<lparr>attempts := attempts', lastIndexes := lastIndexes'\<rparr>)
                 | (Inr sanitizedContent, lastIndexes') \<Rightarrow>
                     (case writeThrows of Some err \<Rightarrow> Inl BottleReplyFailed | None \<Rightarrow> Inr (),
                      c\<lparr>attempts := attempts', lastIndexes := lastIndexes',
                        written := written c @ [(now, WriteReplyToBottle bottleId sanitizedContent)]\<rparr>))))"

definition skipBottle ::
  "hook \<Rightarrow> int \<Rightarrow> thrown option \<Rightarrow> int \<Rightarrow> client \<Rightarrow> (hook_error + unit) \<times> client" where
  "skipBottle h now writeThrows bottleId c =
     (if \<not> actuallyConnected h \<or> \<not> connectionStable h then (Inl NotConnected, c)
      else if \<not> contractConfigured h then (Inl ContractNotConfigured, c)
      else if \<not> validateBottleId bottleId then (Inl InvalidBottleId, c)
      else (case isAllowed (limiter_id h @ ''_skip'') 20 60000 now (attempts c) of
              (False, attempts') \<Rightarrow> (Inl RateLimit, c\<lparr>attempts := attempts'\<rparr>)
            | (True, attempts') \<Rightarrow>
                (case writeThrows of Some err \<Rightarrow> Inl (SkipFailed err) | None \<Rightarrow> Inr (),
                 c\<lparr>attempts := attempts',
                   written := written c @ [(now, WriteSkipBottle bottleId)]\<rparr>)))"

text \<open>
  A session of one account: calls of the three callbacks in any order, each at its time.
\<close>

datatype hook_call =
    CallSendBottle ustring "thrown option"
  | CallReplyToBottle int ustring "thrown option"
  | CallSkipBottle int "thrown option"

fun run_hook_call ::
  "hook \<Rightarrow> (ustring \<Rightarrow> ustring) \<Rightarrow> int \<times> hook_call \<Rightarrow> client \<Rightarrow> client" where
  "run_hook_call h purify (now, CallSendBottle content wt) c =
     snd (sendBottle h purify now wt content c)"
| "run_hook_call h purify (now, CallReplyToBottle bottleId content wt) c =
     snd (replyToBottle h purify now wt bottleId content c)"
| "run_hook_call h purify (now, CallSkipBottle bottleId wt) c =
     snd (skipBottle h now wt bottleId c)"

fun run_session ::
  "hook \<Rightarrow> (ustring \<Rightarrow> ustring) \<Rightarrow> (int \<times> hook_call) list \<Rightarrow> client \<Rightarrow> client" where
  "run_session h purify [] c = c"
| "run_session h purify (call # calls) c = run_session h purify calls (run_hook_call h purify call c)"

datatype write_kind = SendKind | ReplyKind | SkipKind

fun kind_of :: "contract_write \<Rightarrow> write_kind" where
  "kind_of (WriteSendBottle content) = SendKind"
| "kind_of (WriteReplyToBottle bottleId content) = ReplyKind"
| "kind_of (WriteSkipBottle bottleId) = SkipKind"

fun limit_of :: "write_kind \<Rightarrow> nat" where
  "limit_of SendKind = 5"
| "limit_of ReplyKind = 10"
| "limit_of SkipKind = 20"

fun key_of :: "hook \<Rightarrow> write_kind \<Rightarrow> string" where
  "key_of h SendKind = limiter_id h"
| "key_of h ReplyKind = limiter_id h @ ''_reply''"
| "key_of h SkipKind = limiter_id h @ ''_skip''"

text \<open>The times of the writes of one kind, and those of them in the window that ends at \<open>T\<close>.\<close>

definition write_times :: "write_kind \<Rightarrow> client \<Rightarrow> int list" where
  "write_times k c = map fst (filter (\<lambda>w. kind_of (snd w) = k) (written c))"

definition in_window :: "int \<Rightarrow> int list \<Rightarrow> nat" where
  "in_window T ts = length (filter (\<lambda>t. T - 60000 < t \<and> t \<le> T) ts)"

definition recent :: "string \<Rightarrow> int \<Rightarrow> client \<Rightarrow> nat" where
  "recent identifier now c =
     length (filter (\<lambda>timestamp. timestamp > now - 60000)
               (case attempts c identifier of None \<Rightarrow> [] | Some ts \<Rightarrow> ts))"

fun call_kind :: "hook_call \<Rightarrow> write_kind" where
  "call_kind (CallSendBottle content wt) = SendKind"
| "call_kind (CallReplyToBottle bottleId content wt) = ReplyKind"
| "call_kind (CallSkipBottle bottleId wt) = SkipKind"

definition stored :: "client \<Rightarrow> string \<Rightarrow> int list" where
  "stored c identifier = (case attempts c identifier of None \<Rightarrow> [] | Some ts \<Rightarrow> ts)"

definition count_after :: "int \<Rightarrow> int list \<Rightarrow> nat" where
  "count_after \<theta> ts = length (filter (\<lambda>t. t > \<theta>) ts)"

text \<open>
  The invariant that ties the writes of one kind to the attempts the limiter holds for
  that kind's key; \<open>latest\<close> is the time of the latest call.
\<close>

definition limiter_inv :: "write_kind \<Rightarrow> hook \<Rightarrow> int \<Rightarrow> client \<Rightarrow> bool" where
  "limiter_inv k h latest c =
     ((\<forall>\<theta>\<ge>latest - 60000. count_after \<theta> (write_times k c) \<le> count_after \<theta> (stored c (key_of h k)))
      \<and> (\<forall>T. in_window T (write_times k c) \<le> limit_of k)
      \<and> (\<forall>t\<in>set (write_times k c). t \<le> latest))"

subsection \<open>Inputs for the validation and rate-limit examples\<close>

definition busy_client :: client where
  "busy_client = \<lparr>attempts = (\<lambda>identifier. Some [1, 2, 3, 4, 5, 6, 7, 8, 9, 10, 11, 12, 13, 14, 15,
       16, 17, 18, 19, 20]), lastIndexes = [0, 0, 0, 0, 0, 0, 0, 0, 0, 0, 0], written = []\<rparr>"

definition no_purify :: "ustring \<Rightarrow> ustring" where
  "no_purify s = s"

section \<open>The receive page (app/receive/page.tsx)\<close>

text \<open>
  What \<open>readBottleData\<close> and \<open>readBottleReplies\<close> hand to the page: the objects built by
  \<open>sanitizeForDisplay\<close>.
\<close>

record display_bottle =
  d_id :: int
  d_content :: ustring
  d_timestamp :: int
  d_sender :: string
  d_isActive :: bool
  d_replyCount :: int

record display_reply =
  dr_id :: int
  dr_bottleId :: int
  dr_content :: ustring
  dr_timestamp :: int
  dr_replier :: string

text \<open>The page's own \<open>Reply\<close> and \<open>BottleData\<close> interfaces.\<close>

record Reply =
  r_id :: int
  r_content :: ustring
  r_timestamp :: int
  r_replier :: string

record BottleData =
  b_id :: int
  b_content :: ustring
  b_timestamp :: int
  b_sender :: string
  b_replies :: "Reply list"

text \<open>The messages shown under a disabled reply button, and the toasts, by what they say.\<close>

datatype block_reason = NoReason | OwnBottle | WaitingForOthers

datatype toast =
    ConnectFirst
  | OwnBottleRetrying
  | OwnBottleShown
  | NoBottlesYet
  | OwnBottleTryAgain
  | Cancelled
  | FindFailed
  | FetchFailed

record page =
  currentBottle :: "BottleData option"
  reply :: ustring
  showReplyForm :: bool
  isRemoving :: bool
  isSearching :: bool
  canReply :: bool
  replyBlockReason :: block_reason

text \<open>
  What a handler does besides changing the page: calls of the hook's readers, toasts,
  timers, and an error that escapes the handler.
\<close>

datatype ui_event =
    GetRandomBottle
  | ReadBottleData int
  | ReadBottleReplies int
  | Toast toast
  | Timer int
  | Unhandled

type_synonym ui_result = "page \<times> ui_event list"

definition after_ui :: "ui_event list \<Rightarrow> ui_result \<Rightarrow> ui_result" where
  "after_ui evs r = (case r of (p, evs') \<Rightarrow> (p, evs @ evs'))"

definition checkReplyPermissions :: "string option \<Rightarrow> BottleData \<Rightarrow> page \<Rightarrow> page" where
  "checkReplyPermissions addr bottleData p =
     (if Some (b_sender bottleData) = addr
      then p\<lparr>canReply := False, replyBlockReason := OwnBottle\<rparr>
      else if b_replies bottleData \<noteq> []
              \<and> Some (r_replier (last (b_replies bottleData))) = addr
      then p\<lparr>canReply := False, replyBlockReason := WaitingForOthers\<rparr>
      else p\<lparr>canReply := True, replyBlockReason := NoReason\<rparr>)"

text \<open>\<open>s.replace(/^["""]+|["""]+$/g, '')\<close>: the quotes at both ends are dropped.\<close>

definition strip_quotes :: "ustring \<Rightarrow> ustring" where
  "strip_quotes s = rev (dropWhile (\<lambda>c. c = 34) (rev (dropWhile (\<lambda>c. c = 34) s)))"

text \<open>A timestamp in seconds is turned into milliseconds; a missing one becomes the current time.\<close>

definition to_millis :: "int \<Rightarrow> int \<Rightarrow> int" where
  "to_millis now ts = (if ts > 0 then (if ts < 1000000000000 then ts * 1000 else ts) else now)"

definition or_anonymous :: "string \<Rightarrow> string" where
  "or_anonymous s = (if s = [] then ''Anonymous'' else s)"

definition parse_reply :: "int \<Rightarrow> nat \<times> display_reply \<Rightarrow> Reply" where
  "parse_reply now ir =
     \<lparr>r_id = int (fst ir),
      r_content = strip_quotes (dr_content (snd ir)),
      r_timestamp = to_millis now (if dr_timestamp (snd ir) = 0 then now else dr_timestamp (snd ir)),
      r_replier = or_anonymous (dr_replier (snd ir))\<rparr>"

definition parse_bottle :: "int \<Rightarrow> int \<Rightarrow> display_bottle \<Rightarrow> display_reply list \<Rightarrow> BottleData" where
  "parse_bottle now bottleId bottleData bottleReplies =
     \<lparr>b_id = bottleId,
      b_content = strip_quotes (d_content bottleData),
      b_timestamp = to_millis now (d_timestamp bottleData),
      b_sender = or_anonymous (d_sender bottleData),
      b_replies = map (parse_reply now) (enumerate 0 bottleReplies)\<rparr>"

text \<open>
  One attempt of \<open>fetchBottleData\<close>: what \<open>readBottleData\<close> returns (\<open>None\<close> for \<open>null\<close>),
  what \<open>readBottleReplies\<close> returns, and the time. A retry is started by a timer and
  runs the function again with \<open>retryCount + 1\<close>.
\<close>

record fetch_attempt =
  f_bottle :: "display_bottle option"
  f_replies :: "display_reply list"
  f_now :: int

function fetchBottleData ::
  "string option \<Rightarrow> (nat \<Rightarrow> fetch_attempt) \<Rightarrow> int \<Rightarrow> nat \<Rightarrow> page \<Rightarrow> ui_result" where
  "fetchBottleData addr fenv bottleId retryCount p =
     (case f_bottle (fenv retryCount) of
        None \<Rightarrow>
          if retryCount < 2 then
            after_ui [ReadBottleData bottleId, Timer (2 ^ retryCount * 1000)]
              (fetchBottleData addr fenv bottleId (retryCount + 1) p)
          else (p, [ReadBottleData bottleId, Toast FetchFailed])
      | Some bottleData \<Rightarrow>
          (let parsedBottleData =
                 parse_bottle (f_now (fenv retryCount)) bottleId bottleData (f_replies (fenv retryCount))
           in ((checkReplyPermissions addr parsedBottleData p)\<lparr>currentBottle := Some parsedBottleData\<rparr>,
               [ReadBottleData bottleId, ReadBottleReplies bottleId])))"
  by pat_completeness auto
termination
  by (relation "measure (\<lambda>(addr, fenv, bottleId, retryCount, p). 2 - retryCount)") auto





text \<open>
  \<open>handleSkip\<close> acts on the page and, like every handler, has the client state of the
  hook at hand. It starts the removal animation and sets a timer of 300 ms; \<open>skip_timer\<close>
  is the callback of that timer.
\<close>

definition skip_timer :: "page \<Rightarrow> page" where
  "skip_timer p = p\<lparr>currentBottle := None, showReplyForm := False, reply := [], isRemoving := False\<rparr>"

definition handleSkip :: "page \<times> client \<Rightarrow> (page \<times> client) \<times> ui_event list" where
  "handleSkip s =
     (case s of (p, c) \<Rightarrow>
        if currentBottle p = None then ((p, c), [])
        else ((p\<lparr>isRemoving := True\<rparr>, c), [Timer 300]))"

definition draws :: "ui_event list \<Rightarrow> nat" where
  "draws evs = length (filter (\<lambda>e. e = GetRandomBottle) evs)"



subsection \<open>Inputs for the page examples\<close>




definition empty_page :: page where
  "empty_page = \<lparr>currentBottle = None, reply = [], showReplyForm = False, isRemoving = False,
     isSearching = False, canReply = True, replyBlockReason = NoReason\<rparr>"

definition own_bottle_data :: BottleData where
  "own_bottle_data = \<lparr>b_id = 1, b_content = ascii ''hello'', b_timestamp = 1700000000000,
     b_sender = ''0x00000000000000000000000000000000000000aa'', b_replies = []\<rparr>"

definition shown_page :: page where
  "shown_page = \<lparr>currentBottle = Some own_bottle_data, reply = ascii ''draft'',
     showReplyForm = True, isRemoving = False, isSearching = False, canReply = False,
     replyBlockReason = OwnBottle\<rparr>"

section \<open>The ledger (contract DriftBottle)\<close>

text \<open>
  Accounts are addresses; \<open>uint256\<close> values are natural numbers (the counters cannot
  reach \<open>2 ^ 256\<close> in practice, and Solidity 0.8 would revert there); a \<open>string\<close> is its
  bytes, which is what \<open>bytes(content).length\<close> counts. A mapping gives the zero value
  at a key never written.
\<close>

type_synonym account = string

record Bottle =
  bottle_id :: nat
  bottle_sender :: account
  bottle_content :: string
  bottle_timestamp :: nat
  isActive :: bool
  replyCount :: nat

record LedgerReply =
  reply_bottleId :: nat
  reply_replier :: account
  reply_content :: string
  reply_timestamp :: nat
  replyToReplyId :: nat

record UserBottleState =
  hasViewed :: bool
  hasReplied :: bool
  hasSkipped :: bool

text \<open>
  \<open>hasUserReplied\<close> is keyed by \<open>keccak256(abi.encodePacked(user, bottleId))\<close>; the packed
  encoding of an address and a \<open>uint256\<close> has a fixed layout, so, hash collisions apart,
  the key is the pair.
\<close>

record ledger =
  bottleIdCounter :: nat
  replyIdCounter :: nat
  bottles :: "nat \<Rightarrow> Bottle"
  replies :: "nat \<Rightarrow> LedgerReply"
  userBottles :: "account \<Rightarrow> nat list"
  userReplies :: "account \<Rightarrow> nat list"
  bottleReplies :: "nat \<Rightarrow> nat list"
  userBottleStates :: "account \<Rightarrow> nat \<Rightarrow> UserBottleState"
  hasUserReplied :: "account \<times> nat \<Rightarrow> bool"
  activeBottleIds :: "nat list"
  activeBottleIndex :: "nat \<Rightarrow> nat"

definition deployed :: ledger where
  "deployed =
     \<lparr>bottleIdCounter = 0, replyIdCounter = 0,
      bottles = (\<lambda>i. \<lparr>bottle_id = 0, bottle_sender = [], bottle_content = [], bottle_timestamp = 0,
                       isActive = False, replyCount = 0\<rparr>),
      replies = (\<lambda>i. \<lparr>reply_bottleId = 0, reply_replier = [], reply_content = [],
                       reply_timestamp = 0, replyToReplyId = 0\<rparr>),
      userBottles = (\<lambda>u. []), userReplies = (\<lambda>u. []), bottleReplies = (\<lambda>i. []),
      userBottleStates = (\<lambda>u i. \<lparr>hasViewed = False, hasReplied = False, hasSkipped = False\<rparr>),
      hasUserReplied = (\<lambda>k. False), activeBottleIds = [], activeBottleIndex = (\<lambda>i. 0)\<rparr>"

text \<open>The caller and the block time of a transaction.\<close>

record msg =
  msg_sender :: account
  block_timestamp :: nat

text \<open>
  A transaction that fails leaves the ledger as it was: a \<open>require\<close> that does not hold
  reverts with its reason string, an arithmetic underflow or an array index out of
  range panics with its code.
\<close>

datatype failure = Revert string | Panic nat

definition ledger_sendBottle :: "msg \<Rightarrow> string \<Rightarrow> ledger \<Rightarrow> failure + ledger" where
  "ledger_sendBottle m content l =
     (if \<not> length content > 0 then Inl (Revert ''Content cannot be empty'')
      else if \<not> length content \<le> 1000 then Inl (Revert ''Content too long'')
      else
        (let bottleId = bottleIdCounter l + 1 in
         Inr (l\<lparr>bottleIdCounter := bottleId,
                bottles := (bottles l)(bottleId :=
                  \<lparr>bottle_id = bottleId, bottle_sender = msg_sender m, bottle_content = content,
                   bottle_timestamp = block_timestamp m, isActive = True, replyCount = 0\<rparr>),
                userBottles := (userBottles l)(msg_sender m := userBottles l (msg_sender m) @ [bottleId]),
                activeBottleIds := activeBottleIds l @ [bottleId],
                activeBottleIndex := (activeBottleIndex l)(bottleId := length (activeBottleIds l))\<rparr>)))"

definition bottleExists :: "nat \<Rightarrow> ledger \<Rightarrow> bool" where
  "bottleExists bottleId l = (bottleId > 0 \<and> bottleId \<le> bottleIdCounter l)"

definition replyExists :: "nat \<Rightarrow> ledger \<Rightarrow> bool" where
  "replyExists replyId l = (replyId > 0 \<and> replyId \<le> replyIdCounter l)"

definition add_reply :: "msg \<Rightarrow> nat \<Rightarrow> string \<Rightarrow> nat \<Rightarrow> ledger \<Rightarrow> ledger" where
  "add_reply m bottleId content parent l =
     (let replyId = replyIdCounter l + 1 in
      l\<lparr>replyIdCounter := replyId,
        replies := (replies l)(replyId :=
          \<lparr>reply_bottleId = bottleId, reply_replier = msg_sender m, reply_content = content,
           reply_timestamp = block_timestamp m, replyToReplyId = parent\<rparr>),
        userReplies := (userReplies l)(msg_sender m := userReplies l (msg_sender m) @ [replyId]),
        bottleReplies := (bottleReplies l)(bottleId := bottleReplies l bottleId @ [replyId]),
        bottles := (bottles l)(bottleId :=
          (bottles l bottleId)\<lparr>replyCount := replyCount (bottles l bottleId) + 1\<rparr>)\<rparr>)"

definition ledger_replyToBottle :: "msg \<Rightarrow> nat \<Rightarrow> string \<Rightarrow> ledger \<Rightarrow> failure + ledger" where
  "ledger_replyToBottle m bottleId content l =
     (if \<not> bottleExists bottleId l then Inl (Revert ''Bottle does not exist'')
      else if \<not> length content > 0 then Inl (Revert ''Reply content cannot be empty'')
      else if \<not> length content \<le> 1000 then Inl (Revert ''Reply content too long'')
      else if \<not> isActive (bottles l bottleId) then Inl (Revert ''Bottle is not active'')
      else if \<not> bottle_sender (bottles l bottleId) \<noteq> msg_sender m
        then Inl (Revert ''Cannot reply to your own bottle'')
      else if \<not> \<not> hasUserReplied l (msg_sender m, bottleId)
        then Inl (Revert ''Already replied to this bottle'')
      else Inr ((add_reply m bottleId content 0 l)
                  \<lparr>hasUserReplied := (hasUserReplied l)((msg_sender m, bottleId) := True)\<rparr>))"

definition ledger_replyToReply :: "msg \<Rightarrow> nat \<Rightarrow> string \<Rightarrow> ledger \<Rightarrow> failure + ledger" where
  "ledger_replyToReply m replyId content l =
     (if \<not> replyExists replyId l then Inl (Revert ''Reply does not exist'')
      else if \<not> length content > 0 then Inl (Revert ''Reply content cannot be empty'')
      else if \<not> length content \<le> 1000 then Inl (Revert ''Reply content too long'')
      else if \<not> reply_replier (replies l replyId) \<noteq> msg_sender m
        then Inl (Revert ''Cannot reply to your own reply'')
      else if \<not> isActive (bottles l (reply_bottleId (replies l replyId)))
        then Inl (Revert ''Bottle is not active'')
      else Inr (add_reply m (reply_bottleId (replies l replyId)) content replyId l))"

definition ledger_skipBottle :: "msg \<Rightarrow> nat \<Rightarrow> ledger \<Rightarrow> failure + ledger" where
  "ledger_skipBottle m bottleId l =
     (if \<not> bottleExists bottleId l then Inl (Revert ''Bottle does not exist'')
      else if \<not> isActive (bottles l bottleId) then Inl (Revert ''Bottle is not active'')
      else if \<not> bottle_sender (bottles l bottleId) \<noteq> msg_sender m
        then Inl (Revert ''Cannot skip your own bottle'')
      else if \<not> \<not> hasUserReplied l (msg_sender m, bottleId)
        then Inl (Revert ''Cannot skip bottle you've replied to'')
      else if \<not> \<not> hasSkipped (userBottleStates l (msg_sender m) bottleId)
        then Inl (Revert ''Already skipped this bottle'')
      else Inr (l\<lparr>userBottleStates := (userBottleStates l)(msg_sender m :=
                     (userBottleStates l (msg_sender m))(bottleId :=
                        (userBottleStates l (msg_sender m) bottleId)\<lparr>hasSkipped := True\<rparr>))\<rparr>))"

definition ledger_deactivateBottle :: "msg \<Rightarrow> nat \<Rightarrow> ledger \<Rightarrow> failure + ledger" where
  "ledger_deactivateBottle m bottleId l =
     (if \<not> bottleExists bottleId l then Inl (Revert ''Bottle does not exist'')
      else if \<not> bottle_sender (bottles l bottleId) = msg_sender m
        then Inl (Revert ''Only sender can deactivate'')
      else
        (let index = activeBottleIndex l bottleId in
         if activeBottleIds l = [] then Inl (Panic 17)
         else
           (let lastBottleId = last (activeBottleIds l) in
            if \<not> index < length (activeBottleIds l) then Inl (Panic 50)
            else Inr (l\<lparr>bottles := (bottles l)(bottleId := (bottles l bottleId)\<lparr>isActive := False\<rparr>),
                        activeBottleIds := butlast ((activeBottleIds l)[index := lastBottleId]),
                        activeBottleIndex := ((activeBottleIndex l)(lastBottleId := index))(bottleId := 0)\<rparr>))))"

definition hasUserRepliedToBottle :: "account \<Rightarrow> nat \<Rightarrow> ledger \<Rightarrow> bool" where
  "hasUserRepliedToBottle user bottleId l = hasUserReplied l (user, bottleId)"

text \<open>The state-changing transactions, and the ledger after a sequence of them.\<close>

datatype tx =
    TxSendBottle string
  | TxReplyToBottle nat string
  | TxReplyToReply nat string
  | TxSkipBottle nat
  | TxDeactivateBottle nat

fun apply_tx :: "msg \<Rightarrow> tx \<Rightarrow> ledger \<Rightarrow> failure + ledger" where
  "apply_tx m (TxSendBottle content) l = ledger_sendBottle m content l"
| "apply_tx m (TxReplyToBottle bottleId content) l = ledger_replyToBottle m bottleId content l"
| "apply_tx m (TxReplyToReply replyId content) l = ledger_replyToReply m replyId content l"
| "apply_tx m (TxSkipBottle bottleId) l = ledger_skipBottle m bottleId l"
| "apply_tx m (TxDeactivateBottle bottleId) l = ledger_deactivateBottle m bottleId l"

definition commit :: "msg \<times> tx \<Rightarrow> ledger \<Rightarrow> ledger" where
  "commit t l = (case apply_tx (fst t) (snd t) l of Inl failure \<Rightarrow> l | Inr l' \<Rightarrow> l')"

fun run_txs :: "(msg \<times> tx) list \<Rightarrow> ledger \<Rightarrow> ledger" where
  "run_txs [] l = l"
| "run_txs (t # ts) l = run_txs ts (commit t l)"

subsection \<open>Inputs for the reply examples\<close>

definition alice :: account where "alice = ''0x00000000000000000000000000000000000000a1''"

definition bob :: account where "bob = ''0x00000000000000000000000000000000000000b2''"

definition carol :: account where "carol = ''0x00000000000000000000000000000000000000c3''"

definition at_time :: "account \<Rightarrow> nat \<Rightarrow> msg" where
  "at_time user t = \<lparr>msg_sender = user, block_timestamp = t\<rparr>"

text \<open>Alice sends bottle 1; Bob replies to it; then Carol replies to it.\<close>

definition one_bottle :: ledger where
  "one_bottle = run_txs [(at_time alice 10, TxSendBottle ''hi'')] deployed"

definition after_bob :: ledger where
  "after_bob = run_txs [(at_time bob 20, TxReplyToBottle 1 ''hello'')] one_bottle"

definition displayed_after_carol :: BottleData where
  "displayed_after_carol =
     \<lparr>b_id = 1, b_content = ascii ''hi'', b_timestamp = 10000, b_sender = alice,
      b_replies = [\<lparr>r_id = 0, r_content = ascii ''hello'', r_timestamp = 20000, r_replier = bob\<rparr>,
                   \<lparr>r_id = 1, r_content = ascii ''hey'', r_timestamp = 30000, r_replier = carol\<rparr>]\<rparr>"

section \<open>The persistent bottle-data cache (lib/dataCache.ts)\<close>

text \<open>
  The cached state: its bottles, replies and reply permissions are carried as one
  value of an open type; \<open>lastUpdated\<close> is in milliseconds.
\<close>

record 'a CachedBottleState =
  cached_data :: 'a
  lastUpdated :: int
  userAddress :: string

text \<open>
  \<open>localStorage\<close> maps keys to texts. A text is the JSON of a cached state, or something
  else: a text on which \<open>JSON.parse\<close> or the reading of the fields throws, which the
  \<open>catch\<close> block turns into \<open>null\<close>.
\<close>

datatype 'a item = Garbled | Json "'a CachedBottleState"

type_synonym 'a storage = "string \<rightharpoonup> 'a item"

definition CACHE_KEY_PREFIX :: string where
  "CACHE_KEY_PREFIX = ''drift-bottle-data''"

definition CACHE_EXPIRY_TIME :: int where
  "CACHE_EXPIRY_TIME = 1000 * 60 * 30"

text \<open>\<open>toLowerCase\<close> on the characters of an address (ASCII).\<close>

definition lower_char :: "char \<Rightarrow> char" where
  "lower_char c =
     (case map_of (zip ''ABCDEFGHIJKLMNOPQRSTUVWXYZ'' ''abcdefghijklmnopqrstuvwxyz'') c of
        Some l \<Rightarrow> l
      | None \<Rightarrow> c)"

definition toLowerCase :: "string \<Rightarrow> string" where
  "toLowerCase s = map lower_char s"

definition getCacheKey :: "string \<Rightarrow> string" where
  "getCacheKey addr = CACHE_KEY_PREFIX @ ''-'' @ toLowerCase addr"

text \<open>The object \<open>saveBottleDataToCache(address, data)\<close> writes at time \<open>now\<close>.\<close>

definition cacheData :: "string \<Rightarrow> int \<Rightarrow> 'a CachedBottleState \<Rightarrow> 'a CachedBottleState" where
  "cacheData addr now d = d\<lparr>lastUpdated := now, userAddress := toLowerCase addr\<rparr>"

text \<open>\<open>inBrowser\<close> is \<open>typeof window !== 'undefined'\<close>.\<close>

definition loadBottleDataFromCache ::
  "bool \<Rightarrow> int \<Rightarrow> string \<Rightarrow> 'a storage \<Rightarrow> 'a CachedBottleState option \<times> 'a storage" where
  "loadBottleDataFromCache inBrowser now addr localStorage =
     (if \<not> inBrowser then (None, localStorage)
      else
        (case localStorage (getCacheKey addr) of
           None \<Rightarrow> (None, localStorage)
         | Some Garbled \<Rightarrow> (None, localStorage)
         | Some (Json d) \<Rightarrow>
             if now - lastUpdated d > CACHE_EXPIRY_TIME
             then (None, localStorage(getCacheKey addr := None))
             else if userAddress d \<noteq> toLowerCase addr then (None, localStorage)
             else (Some d, localStorage)))"

subsection \<open>Inputs for the cache examples\<close>

definition saved_state :: "unit CachedBottleState" where
  "saved_state = cacheData ''0xAB'' 1000 \<lparr>cached_data = (), lastUpdated = 0, userAddress = []\<rparr>"

definition saved_storage :: "unit storage" where
  "saved_storage = [getCacheKey ''0xAB'' \<mapsto> Json saved_state]"

definition foreign_storage :: "unit storage" where
  "foreign_storage = [getCacheKey ''0xAB'' \<mapsto> Json (saved_state\<lparr>userAddress := ''0xcd''\<rparr>)]"

section \<open>Properties of the cache locks\<close>

declare waitLoop.simps [simp del]

lemma runLocked_released: "locks (snd (runLocked k fn w)) k = None"
  by (simp add: runLocked_def releaseLock_def split: prod.splits)

lemma acquireLock_fresh:
  "fst (acquireLock k e w) \<Longrightarrow>
   locks (snd (acquireLock k e w)) k = Some \<lparr>key = k, timestamp = clock w, expiry = clock w + e\<rparr>"
  by (auto simp: acquireLock_def Let_def split: if_splits)

text \<open>
  Every way out of \<open>withLock\<close> either went through the \<open>finally\<close> block, and then the key
  is free, or returned \<open>null\<close> before the wrapped function was started (the result does not
  depend on the function), and then the call had acquired nothing.
\<close>

lemma withLock_exit:
  assumes "withLock k fn e m sched w = Some (r, w', s')"
  shows "locks w' k = None \<or> (\<forall>fn'. withLock k fn' e m sched w = Some (Inr Null, w', s'))"
proof -
  from assms obtain b w1 s1 where wl: "waitForLock k m 100 sched w = Some (b, w1, s1)"
    by (auto simp: withLock_def split: option.splits)
  from assms wl obtain w2 s2 where a1: "await s1 w1 = Some (w2, s2)"
    by (auto simp: withLock_def split: option.splits)
  show ?thesis
  proof (cases b)
    case False
    with assms wl a1 show ?thesis by (simp add: withLock_def)
  next
    case True
    obtain acq w3 where ac: "acquireLock k e w2 = (acq, w3)" by (cases "acquireLock k e w2")
    from assms wl a1 True ac obtain w4 s3 where a2: "await s2 w3 = Some (w4, s3)"
      by (auto simp: withLock_def split: option.splits)
    show ?thesis
    proof (cases acq)
      case False
      with assms wl a1 True ac a2 show ?thesis by (simp add: withLock_def)
    next
      case acq: True
      from assms wl a1 True ac a2 acq have "(r, w') = runLocked k fn w4"
        by (auto simp: withLock_def split: prod.splits)
      then have "w' = snd (runLocked k fn w4)" by (metis snd_conv)
      then have "locks w' k = None" by (simp only: runLocked_released)
      then show ?thesis by blast
    qed
  qed
qed

text \<open>
  Claim C4. A lock whose expiry time has passed does not keep its key: \<open>isLocked\<close> reports
  the key free (and drops the entry) and \<open>acquireLock\<close> succeeds, installing a lock that
  expires \<open>expiryMs\<close> after the acquisition, whether or not the old holder released. The
  \<open>try\<close>/\<open>finally\<close> of \<open>withLock\<close> leaves the key free when the wrapped function returns
  and when it throws; the only other exits of \<open>withLock\<close> are those on which it acquired
  nothing.
\<close>

theorem lock_expires_and_is_released:
  "(locks w k = Some l \<and> expiry l \<le> clock w \<longrightarrow>
      \<not> fst (isLocked k w) \<and> locks (snd (isLocked k w)) k = None \<and>
      fst (acquireLock k expiryMs w) \<and>
      locks (snd (acquireLock k expiryMs w)) k
        = Some \<lparr>key = k, timestamp = clock w, expiry = clock w + expiryMs\<rparr>)
   \<and> locks (snd (runLocked k fn w)) k = None
   \<and> (withLock k fn expiryMs maxWaitMs sched w = Some (r, w', s') \<longrightarrow>
        locks w' k = None
        \<or> (\<forall>fn'. withLock k fn' expiryMs maxWaitMs sched w = Some (Inr Null, w', s')))"
proof -
  have "\<not> fst (isLocked k w) \<and> locks (snd (isLocked k w)) k = None"
    if "locks w k = Some l" "expiry l \<le> clock w"
    using that by (simp add: isLocked_def)
  moreover have "fst (acquireLock k expiryMs w)"
    if "locks w k = Some l" "expiry l \<le> clock w"
    using that by (simp add: acquireLock_def Let_def)
  ultimately show ?thesis
    using acquireLock_fresh[of k expiryMs w] runLocked_released[of k fn w]
      withLock_exit[of k fn expiryMs maxWaitMs sched w r w' s']
    by blast
qed

lemma withLock_failing:
  "withLock ''k'' failing_operation 30000 5000 [idle, idle] expired_world
     = Some (Inl ''boom'', \<lparr>clock = 30000, locks = Map.empty\<rparr>, [])"
  by (simp add: withLock_def waitForLock_def waitLoop.simps isLocked_def expired_world_def
      await_def resume_def idle_def acquireLock_def runLocked_def failing_operation_def
      releaseLock_def)

theorem lock_expires_and_is_released_witness:
  "locks expired_world ''k'' = Some \<lparr>key = ''k'', timestamp = 0, expiry = 30000\<rparr>
   \<and> expiry \<lparr>key = ''k'', timestamp = 0, expiry = 30000\<rparr> \<le> clock expired_world
   \<and> \<not> fst (isLocked ''k'' expired_world)
   \<and> fst (acquireLock ''k'' 30000 expired_world)
   \<and> withLock ''k'' failing_operation 30000 5000 [idle, idle] expired_world
        = Some (Inl ''boom'', \<lparr>clock = 30000, locks = Map.empty\<rparr>, [])
   \<and> locks \<lparr>clock = 30000, locks = Map.empty\<rparr> ''k'' = None"
  using lock_expires_and_is_released[where w = expired_world and k = "''k''"
      and l = "\<lparr>key = ''k'', timestamp = 0, expiry = 30000\<rparr>" and expiryMs = 30000
      and fn = failing_operation and maxWaitMs = 5000 and sched = "[idle, idle]"
      and r = "Inl ''boom''" and w' = "\<lparr>clock = 30000, locks = Map.empty\<rparr>" and s' = "[]"]
    withLock_failing
  by (simp add: expired_world_def)

section \<open>Properties of safeCacheOperation\<close>

lemma waitLoop_returns:
  "int n * p \<ge> m - (clock w - st) \<Longrightarrow> n \<le> length sched \<Longrightarrow>
   \<exists>b w' s'. waitLoop k m p st sched w = Some (b, w', s') \<and> length sched - n \<le> length s'"
proof (induction n arbitrary: sched w)
  case 0
  then have "\<not> clock w - st < m" by simp
  then have "waitLoop k m p st sched w = Some (False, w, sched)"
    by (subst waitLoop.simps) simp
  then show ?case by auto
next
  case (Suc n)
  show ?case
  proof (cases "clock w - st < m \<and> fst (isLocked k w)")
    case False
    then show ?thesis by (subst waitLoop.simps) auto
  next
    case True
    from Suc.prems obtain t rest where s: "sched = t # rest" by (cases sched) auto
    have c: "clock (snd (isLocked k w)) = clock w"
      by (auto simp: isLocked_def split: option.splits)
    let ?w = "resume p t (snd (isLocked k w))"
    have "int n * p \<ge> m - (clock ?w - st)"
      using Suc.prems(1) c by (simp add: resume_def algebra_simps max_def split: if_splits)
    moreover have "n \<le> length rest" using Suc.prems s by simp
    ultimately obtain b w' s' where
      "waitLoop k m p st rest ?w = Some (b, w', s')" "length rest - n \<le> length s'"
      using Suc.IH by blast
    then show ?thesis using True s by (subst waitLoop.simps) simp
  qed
qed

lemma await_Some: "sched \<noteq> [] \<Longrightarrow> \<exists>w' s'. await sched w = Some (w', s') \<and> length s' = length sched - 1"
  by (cases sched) (auto simp: await_def)

lemma withLock_returns:
  assumes "int n * 100 \<ge> maxWaitMs" and "n + 2 \<le> length sched"
  shows "withLock k fn e maxWaitMs sched w \<noteq> None"
proof -
  have "int n * 100 \<ge> maxWaitMs - (clock w - clock w)" using assms by simp
  moreover have "n \<le> length sched" using assms by simp
  ultimately obtain b w1 s1 where
    wl: "waitForLock k maxWaitMs 100 sched w = Some (b, w1, s1)" and l1: "length sched - n \<le> length s1"
    unfolding waitForLock_def using waitLoop_returns by blast
  from l1 assms have "s1 \<noteq> []" by auto
  then obtain w2 s2 where a1: "await s1 w1 = Some (w2, s2)" and l2: "length s2 = length s1 - 1"
    using await_Some by blast
  from l1 l2 assms have "s2 \<noteq> []" by auto
  then obtain w4 s3 where a2: "await s2 (snd (acquireLock k e w2)) = Some (w4, s3)"
    using await_Some by blast
  show ?thesis using wl a1 a2
    by (auto simp: withLock_def split: prod.splits)
qed

lemma safeCacheOperation_returns:
  assumes "int n * 100 \<ge> maxWaitMs" and "n + 2 \<le> length sched"
  shows "safeCacheOperation k fn e maxWaitMs fb sched w \<noteq> None"
  using withLock_returns[OF assms, of k fn e w]
  by (auto simp: safeCacheOperation_def split: option.splits sum.splits)

text \<open>
  Claim C3, as amended. With a fallback value supplied: when the bounded wait ends without
  the key having been seen free, \<open>safeCacheOperation\<close> returns the fallback value and its
  result does not depend on the operation, which is never started. When the key is seen
  free within the wait, the operation runs only if the \<open>acquireLock\<close> that follows
  succeeds: then the call holds a fresh lock on the key, runs the operation and releases
  the key; if another task took the key between the poll and the acquire, the operation
  is not started and the fallback value is returned. With the default poll interval of
  100 ms, a schedule of \<open>n + 2\<close> turns with \<open>maxWaitMs \<le> 100 n\<close> is enough for the call
  to return.
\<close>

theorem safeCacheOperation_lock_or_fallback:
  assumes fb: "fallbackValue \<noteq> Undefined"
  shows
   "(waitForLock lockKey maxWaitMs 100 sched w = Some (False, w1, s1) \<and> await s1 w1 = Some (w2, s2) \<longrightarrow>
       safeCacheOperation lockKey operation expiryMs maxWaitMs fallbackValue sched w
         = Some (Inr fallbackValue, w2, s2))
    \<and> (waitForLock lockKey maxWaitMs 100 sched w = Some (True, w1, s1) \<and> await s1 w1 = Some (w2, s2)
        \<and> await s2 (snd (acquireLock lockKey expiryMs w2)) = Some (w4, s3) \<longrightarrow>
         (if fst (acquireLock lockKey expiryMs w2)
          then locks (snd (acquireLock lockKey expiryMs w2)) lockKey
                 = Some \<lparr>key = lockKey, timestamp = clock w2, expiry = clock w2 + expiryMs\<rparr>
               \<and> withLock lockKey operation expiryMs maxWaitMs sched w
                 = Some (fst (operation w4), releaseLock lockKey (snd (operation w4)), s3)
          else safeCacheOperation lockKey operation expiryMs maxWaitMs fallbackValue sched w
                 = Some (Inr fallbackValue, w4, s3)))
    \<and> (maxWaitMs \<le> int n * 100 \<and> n + 2 \<le> length sched \<longrightarrow>
         safeCacheOperation lockKey operation expiryMs maxWaitMs fallbackValue sched w \<noteq> None)"
proof (intro conjI impI)
  assume "waitForLock lockKey maxWaitMs 100 sched w = Some (False, w1, s1) \<and> await s1 w1 = Some (w2, s2)"
  then show "safeCacheOperation lockKey operation expiryMs maxWaitMs fallbackValue sched w
         = Some (Inr fallbackValue, w2, s2)"
    using fb by (simp add: safeCacheOperation_def withLock_def)
next
  assume a: "waitForLock lockKey maxWaitMs 100 sched w = Some (True, w1, s1) \<and> await s1 w1 = Some (w2, s2)
        \<and> await s2 (snd (acquireLock lockKey expiryMs w2)) = Some (w4, s3)"
  show "if fst (acquireLock lockKey expiryMs w2)
          then locks (snd (acquireLock lockKey expiryMs w2)) lockKey
                 = Some \<lparr>key = lockKey, timestamp = clock w2, expiry = clock w2 + expiryMs\<rparr>
               \<and> withLock lockKey operation expiryMs maxWaitMs sched w
                 = Some (fst (operation w4), releaseLock lockKey (snd (operation w4)), s3)
          else safeCacheOperation lockKey operation expiryMs maxWaitMs fallbackValue sched w
                 = Some (Inr fallbackValue, w4, s3)"
  proof (cases "fst (acquireLock lockKey expiryMs w2)")
    case True
    then show ?thesis using a acquireLock_fresh[OF True]
      by (cases "acquireLock lockKey expiryMs w2")
         (auto simp: withLock_def runLocked_def split: prod.splits)
  next
    case False
    then show ?thesis using a fb
      by (cases "acquireLock lockKey expiryMs w2")
         (auto simp: safeCacheOperation_def withLock_def)
  qed
next
  assume "maxWaitMs \<le> int n * 100 \<and> n + 2 \<le> length sched"
  then show "safeCacheOperation lockKey operation expiryMs maxWaitMs fallbackValue sched w \<noteq> None"
    using safeCacheOperation_returns by blast
qed

text \<open>
  Claim C3 as stated fails: the key is free at the first poll, another task acquires it
  while the call is suspended at \<open>await this.waitForLock(...)\<close>, and the operation (which
  would return 1) is not executed: the call returns the fallback value 0.
\<close>

theorem free_lock_not_executed_counterexample:
  "waitForLock ''cache_k'' 5000 100 [rival_acquires, idle] free_world
      = Some (True, free_world, [rival_acquires, idle])
   \<and> constant_operation free_world = (Inr (Val 1), free_world)
   \<and> safeCacheOperation ''cache_k'' constant_operation 30000 5000 (Val 0) [rival_acquires, idle] free_world
      = Some (Inr (Val 0), \<lparr>clock = 0, locks = [''cache_k'' \<mapsto> rival_lock]\<rparr>, [])"
  by (simp add: waitForLock_def waitLoop.simps isLocked_def free_world_def rival_acquires_def
      idle_def safeCacheOperation_def withLock_def await_def resume_def acquireLock_def
      rival_lock_def constant_operation_def)

lemma timeout_wait:
  "waitForLock ''cache_k'' 5000 100 (replicate 52 idle) held_world
     = Some (False, \<lparr>clock = 5000, locks = [''cache_k'' \<mapsto> rival_lock]\<rparr>, [idle, idle])"
  by (simp add: waitForLock_def waitLoop.simps isLocked_def held_world_def idle_def resume_def
      rival_lock_def eval_nat_numeral)

lemma free_wait:
  "waitForLock ''cache_k'' 5000 100 [idle, idle] free_world = Some (True, free_world, [idle, idle])"
  by (simp add: waitForLock_def waitLoop.simps isLocked_def free_world_def)

theorem safeCacheOperation_lock_or_fallback_witness:
  "(Val 0 :: nat js) \<noteq> Undefined
   \<and> waitForLock ''cache_k'' 5000 100 (replicate 52 idle) held_world
       = Some (False, \<lparr>clock = 5000, locks = [''cache_k'' \<mapsto> rival_lock]\<rparr>, [idle, idle])
   \<and> await [idle, idle] \<lparr>clock = 5000, locks = [''cache_k'' \<mapsto> rival_lock]\<rparr>
       = Some (\<lparr>clock = 5000, locks = [''cache_k'' \<mapsto> rival_lock]\<rparr>, [idle])
   \<and> safeCacheOperation ''cache_k'' constant_operation 30000 5000 (Val 0) (replicate 52 idle) held_world
       = Some (Inr (Val 0), \<lparr>clock = 5000, locks = [''cache_k'' \<mapsto> rival_lock]\<rparr>, [idle])
   \<and> waitForLock ''cache_k'' 5000 100 [idle, idle] free_world = Some (True, free_world, [idle, idle])
   \<and> await [idle, idle] free_world = Some (free_world, [idle])
   \<and> fst (acquireLock ''cache_k'' 30000 free_world)
   \<and> await [idle] (snd (acquireLock ''cache_k'' 30000 free_world))
       = Some (\<lparr>clock = 0, locks = [''cache_k'' \<mapsto> rival_lock]\<rparr>, [])
   \<and> withLock ''cache_k'' constant_operation 30000 5000 [idle, idle] free_world
       = Some (Inr (Val 1), free_world, [])
   \<and> (5000::int) \<le> int 50 * 100 \<and> 50 + 2 \<le> length (replicate 52 idle)
   \<and> safeCacheOperation ''cache_k'' constant_operation 30000 5000 (Val 0) (replicate 52 idle) held_world \<noteq> None"
  using safeCacheOperation_lock_or_fallback[where fallbackValue = "Val 0 :: nat js"
      and lockKey = "''cache_k''" and maxWaitMs = 5000 and sched = "replicate 52 idle"
      and w = held_world and ?w1.0 = "\<lparr>clock = 5000, locks = [''cache_k'' \<mapsto> rival_lock]\<rparr>"
      and ?s1.0 = "[idle, idle]" and ?w2.0 = "\<lparr>clock = 5000, locks = [''cache_k'' \<mapsto> rival_lock]\<rparr>"
      and ?s2.0 = "[idle]" and operation = constant_operation and expiryMs = 30000 and n = 50]
    safeCacheOperation_lock_or_fallback[where fallbackValue = "Val 0 :: nat js"
      and lockKey = "''cache_k''" and maxWaitMs = 5000 and sched = "[idle, idle]"
      and w = free_world and ?w1.0 = free_world
      and ?s1.0 = "[idle, idle]" and ?w2.0 = free_world
      and ?s2.0 = "[idle]" and operation = constant_operation and expiryMs = 30000
      and ?w4.0 = "\<lparr>clock = 0, locks = [''cache_k'' \<mapsto> rival_lock]\<rparr>" and ?s3.0 = "[]"]
    timeout_wait free_wait
  by (simp add: await_def resume_def idle_def acquireLock_def free_world_def rival_lock_def
      constant_operation_def releaseLock_def)

section \<open>Properties of the bottle-data cache\<close>

declare readBottleData.simps [simp del] readBottleReplies.simps [simp del]

lemma length_originalSet: "length (originalSet k v m) \<le> Suc (length m)"
  by (induction m) auto

lemma keys_originalSet: "fst ` set (originalSet k v m) = insert k (fst ` set m)"
  by (induction m) auto

lemma distinct_originalSet:
  "distinct (map fst m) \<Longrightarrow> distinct (map fst (originalSet k v m))"
  by (induction m) (auto simp: keys_originalSet)

lemma length_Map_delete: "length (Map_delete k m) \<le> length m"
  by (simp add: Map_delete_def)

lemma distinct_Map_delete: "distinct (map fst m) \<Longrightarrow> distinct (map fst (Map_delete k m))"
  by (simp add: Map_delete_def distinct_map_filter)

lemma Map_delete_first:
  "distinct (map fst (e # m)) \<Longrightarrow> Map_delete (fst e) (e # m) = m"
proof -
  assume d: "distinct (map fst (e # m))"
  then have "fst e \<notin> fst ` set m" by simp
  then have "\<forall>x \<in> set m. fst x \<noteq> fst e" by (metis imageI)
  then have "filter (\<lambda>x. fst x \<noteq> fst e) m = m" by (simp add: filter_id_conv)
  then show ?thesis by (simp add: Map_delete_def)
qed

lemma cache_set_evicts_oldest:
  assumes "distinct (map fst cache)" and "length cache \<ge> MAX_CACHE_SIZE"
  shows "cache_set k v cache = originalSet k v (tl cache)"
proof (cases cache)
  case Nil
  then show ?thesis using assms by (simp add: MAX_CACHE_SIZE_def)
next
  case (Cons e m)
  then show ?thesis using assms Map_delete_first[of e m] by (simp add: cache_set_def)
qed

lemma cache_set_bounded:
  assumes "length cache \<le> MAX_CACHE_SIZE"
  shows "length (cache_set k v cache) \<le> MAX_CACHE_SIZE"
proof (cases "length cache \<ge> MAX_CACHE_SIZE")
  case False
  then show ?thesis
    using length_originalSet[of k v cache] by (simp add: cache_set_def)
next
  case True
  then obtain e m where c: "cache = e # m"
    by (cases cache) (auto simp: MAX_CACHE_SIZE_def)
  have "length (Map_delete (fst e) (e # m)) \<le> length m"
    using length_Map_delete[of "fst e" m] by (simp add: Map_delete_def)
  then have "length (Map_delete (fst e) cache) < MAX_CACHE_SIZE"
    using assms c by simp
  then show ?thesis
    using True c length_originalSet[of k v "Map_delete (fst e) cache"]
    by (simp add: cache_set_def)
qed

lemma cache_set_distinct:
  "distinct (map fst cache) \<Longrightarrow> distinct (map fst (cache_set k v cache))"
proof -
  assume d: "distinct (map fst cache)"
  have "distinct (map fst (case cache of [] \<Rightarrow> cache
                             | firstEntry # _ \<Rightarrow> Map_delete (fst firstEntry) cache))"
    using d distinct_Map_delete[OF d] by (cases cache) simp_all
  then show ?thesis using d by (simp add: cache_set_def distinct_originalSet)
qed

lemma cache_ok_set: "cache_ok cache \<Longrightarrow> cache_ok (cache_set k v cache)"
  by (simp add: cache_ok_def cache_set_bounded cache_set_distinct)

lemma cache_ok_delete: "cache_ok cache \<Longrightarrow> cache_ok (Map_delete k cache)"
  using length_Map_delete[of k cache] by (simp add: cache_ok_def distinct_Map_delete)

lemma cache_ok_lookup: "cache_ok cache \<Longrightarrow> cache_ok (snd (lookup_fresh k ttl now cache))"
  by (auto simp: lookup_fresh_def cache_ok_delete split: option.splits)

lemma cache_ok_after_events [simp]: "cache_after (after_events evs r) = cache_after r"
  by (cases r) (simp add: after_events_def cache_after_def)

lemma cache_ok_readBottleData:
  "cache_ok cache \<Longrightarrow> cache_ok (cache_after (readBottleData h env bottleId retryCount cache))"
proof (induction h env bottleId retryCount cache rule: readBottleData.induct)
  case (1 h env bottleId retryCount cache)
  let ?l = "lookup_fresh (bottle_key bottleId) (5 * 60 * 1000) (checked_at (env retryCount)) cache"
  have ok1: "cache_ok (snd ?l)" using "1.prems" by (rule cache_ok_lookup)
  show ?case
  proof (cases "bottleId \<le> 0 \<or> \<not> contractConfigured h \<or> \<not> actuallyConnected h \<or> \<not> connectionStable h")
    case True
    then show ?thesis using "1.prems"
      by (subst readBottleData.simps) (auto simp: cache_after_def)
  next
    case guards: False
    show ?thesis
    proof (cases "fst ?l")
      case (Some d)
      then show ?thesis using guards ok1
        by (subst readBottleData.simps) (auto simp: cache_after_def split: prod.splits)
    next
      case None
      show ?thesis
      proof (cases "outcome (env retryCount)")
        case (Threw e)
        show ?thesis
        proof (cases "\<not> isContractError e \<and> retryCount < 3 \<and> isNetworkError e")
          case True
          have "cache_ok (cache_after (readBottleData h env bottleId (retryCount + 1) (snd ?l)))"
            using "1.IH"[of "fst ?l" "snd ?l" e] guards None Threw True ok1
            by (auto simp: prod_eq_iff)
          then show ?thesis using guards None Threw True
            by (subst readBottleData.simps) (auto split: prod.splits)
        next
          case False
          then show ?thesis using guards None Threw ok1
            by (subst readBottleData.simps) (auto simp: cache_after_def split: prod.splits)
        qed
      next
        case Falsy
        then show ?thesis using guards None ok1
          by (subst readBottleData.simps) (auto simp: cache_after_def split: prod.splits)
      next
        case Rejected
        then show ?thesis using guards None ok1
          by (subst readBottleData.simps) (auto simp: cache_after_def split: prod.splits)
      next
        case (Read d)
        then show ?thesis using guards None cache_ok_set[OF ok1]
          by (subst readBottleData.simps) (auto simp: cache_after_def split: prod.splits)
      qed
    qed
  qed
qed

lemma cache_ok_readBottleReplies:
  "cache_ok cache \<Longrightarrow> cache_ok (cache_after (readBottleReplies h env bottleId retryCount cache))"
proof (induction h env bottleId retryCount cache rule: readBottleReplies.induct)
  case (1 h env bottleId retryCount cache)
  let ?l = "lookup_fresh (replies_key bottleId) (3 * 60 * 1000) (r_checked_at (env retryCount)) cache"
  have ok1: "cache_ok (snd ?l)" using "1.prems" by (rule cache_ok_lookup)
  show ?case
  proof (cases "bottleId \<le> 0 \<or> \<not> contractConfigured h \<or> \<not> actuallyConnected h \<or> \<not> connectionStable h")
    case True
    then show ?thesis using "1.prems"
      by (subst readBottleReplies.simps) (auto simp: cache_after_def)
  next
    case guards: False
    show ?thesis
    proof (cases "fst ?l")
      case (Some d)
      then show ?thesis using guards ok1
        by (subst readBottleReplies.simps) (auto simp: cache_after_def split: prod.splits)
    next
      case None
      show ?thesis
      proof (cases "r_outcome (env retryCount)")
        case (RepliesThrew e)
        show ?thesis
        proof (cases "retryCount < 2 \<and> isNetworkError e")
          case True
          have "cache_ok (cache_after (readBottleReplies h env bottleId (retryCount + 1) (snd ?l)))"
            using "1.IH"[of "fst ?l" "snd ?l" e] guards None RepliesThrew True ok1
            by (auto simp: prod_eq_iff)
          then show ?thesis using guards None RepliesThrew True
            by (subst readBottleReplies.simps) (auto split: prod.splits)
        next
          case False
          then show ?thesis using guards None RepliesThrew ok1
            by (subst readBottleReplies.simps) (auto simp: cache_after_def split: prod.splits)
        qed
      next
        case NoReplies
        then show ?thesis using guards None cache_ok_set[OF ok1]
          by (subst readBottleReplies.simps) (auto simp: cache_after_def split: prod.splits)
      next
        case (ReadReplies rs)
        then show ?thesis using guards None cache_ok_set[OF ok1]
          by (subst readBottleReplies.simps) (auto simp: cache_after_def split: prod.splits)
      qed
    qed
  qed
qed

lemma cache_ok_run_call: "cache_ok cache \<Longrightarrow> cache_ok (run_call c cache)"
  using cache_ok_readBottleData cache_ok_readBottleReplies
  by (cases c) (auto simp: cache_after_def)

lemma cache_ok_run_calls: "cache_ok cache \<Longrightarrow> cache_ok (run_calls cs cache)"
  by (induction cs arbitrary: cache) (auto simp: cache_ok_run_call)

text \<open>
  Claim C10. The cache never holds more than 100 entries. Its \<open>set\<close> keeps the bound (and
  the keys distinct, so that the length of the list is the \<open>size\<close> of the map); on a cache
  that holds 100 entries it first removes the oldest entry and then stores the new one;
  and the bound holds after every sequence of \<open>readBottleData\<close> and \<open>readBottleReplies\<close>
  calls, from the empty cache the hook starts with or from any cache within the bound.
\<close>

theorem bottleDataCache_bounded:
  "(distinct (map fst m) \<and> length m \<le> MAX_CACHE_SIZE \<longrightarrow>
      distinct (map fst (cache_set k v m)) \<and> length (cache_set k v m) \<le> 100 \<and>
      (length m = MAX_CACHE_SIZE \<longrightarrow> cache_set k v m = originalSet k v (tl m)))
   \<and> (distinct (map fst cache) \<and> length cache \<le> MAX_CACHE_SIZE \<longrightarrow>
        distinct (map fst (run_calls calls cache)) \<and> length (run_calls calls cache) \<le> 100)
   \<and> length (run_calls calls []) \<le> 100"
proof -
  have "cache_ok (run_calls calls [])"
    by (rule cache_ok_run_calls) (simp add: cache_ok_def)
  then show ?thesis
    using cache_set_distinct[of m k v] cache_set_bounded[of m k v]
      cache_set_evicts_oldest[of m k v] cache_ok_run_calls[of cache calls]
    by (auto simp: cache_ok_def MAX_CACHE_SIZE_def)
qed

lemma full_cache_facts:
  "distinct (map fst full_cache)" "length full_cache = 100"
  by (simp_all add: full_cache_def comp_def)

theorem bottleDataCache_bounded_witness:
  "distinct (map fst full_cache) \<and> length full_cache \<le> MAX_CACHE_SIZE
   \<and> length full_cache = MAX_CACHE_SIZE
   \<and> length (cache_set 100 () full_cache) \<le> 100
   \<and> cache_set 100 () full_cache = originalSet 100 () (tl full_cache)
   \<and> distinct (map fst ([] :: (unit, unit) cache))
   \<and> length ([] :: (unit, unit) cache) \<le> MAX_CACHE_SIZE
   \<and> length (run_calls [CallReadBottleData connected_hook always_failing 7] ([] :: (unit, unit) cache)) \<le> 100"
proof -
  have h: "distinct (map fst full_cache)" "length full_cache \<le> MAX_CACHE_SIZE"
    "length full_cache = MAX_CACHE_SIZE" "distinct (map fst ([] :: (unit, unit) cache))"
    "length ([] :: (unit, unit) cache) \<le> MAX_CACHE_SIZE"
    by (simp_all add: full_cache_facts MAX_CACHE_SIZE_def)
  show ?thesis
    using bottleDataCache_bounded[where m = full_cache and k = 100 and v = "()"
        and cache = "[] :: (unit, unit) cache"
        and calls = "[CallReadBottleData connected_hook always_failing 7]"] h
    by blast
qed

section \<open>Properties of the contract reads\<close>

lemma events_after_events [simp]: "events (after_events evs r) = evs @ events r"
  by (cases r) (simp add: after_events_def events_def)

lemma reads_append [simp]: "reads (xs @ ys) = reads xs + reads ys"
  by (simp add: reads_def)

lemma reads_simps [simp]:
  "reads [] = 0"
  "reads (ContractRead # evs) = Suc (reads evs)"
  "reads (Sleep ms # evs) = reads evs"
  by (simp_all add: reads_def)

lemma sleeps_append [simp]: "sleeps (xs @ ys) = sleeps xs @ sleeps ys"
  by (induction xs rule: sleeps.induct) auto

lemma readBottleData_bounded:
  "retryCount \<le> 3 \<Longrightarrow>
   reads (events (readBottleData h env bottleId retryCount cache)) \<le> 4 - retryCount \<and>
   prefix (sleeps (events (readBottleData h env bottleId retryCount cache)))
     (map backoff [retryCount..<3])"
proof (induction h env bottleId retryCount cache rule: readBottleData.induct)
  case (1 h env bottleId retryCount cache)
  let ?l = "lookup_fresh (bottle_key bottleId) (5 * 60 * 1000) (checked_at (env retryCount)) cache"
  let ?retry = "bottleId > 0 \<and> contractConfigured h \<and> actuallyConnected h \<and> connectionStable h \<and>
     fst ?l = None \<and> (\<exists>e. outcome (env retryCount) = Threw e \<and> \<not> isContractError e \<and>
       retryCount < 3 \<and> isNetworkError e)"
  show ?case
  proof (cases ?retry)
    case True
    then obtain e where e: "outcome (env retryCount) = Threw e" "\<not> isContractError e"
      "retryCount < 3" "isNetworkError e" by blast
    have IH: "reads (events (readBottleData h env bottleId (retryCount + 1) (snd ?l))) \<le> 4 - (retryCount + 1) \<and>
       prefix (sleeps (events (readBottleData h env bottleId (retryCount + 1) (snd ?l))))
         (map backoff [retryCount + 1..<3])"
      using "1.IH"[of "fst ?l" "snd ?l" e] True e by (auto simp: prod_eq_iff)
    have unfold: "readBottleData h env bottleId retryCount cache =
        after_events [ContractRead, Sleep (backoff retryCount)]
          (readBottleData h env bottleId (retryCount + 1) (snd ?l))"
      using True e by (subst readBottleData.simps) (auto simp: backoff_def split: prod.splits)
    have upt: "[retryCount..<3] = retryCount # [retryCount + 1..<3]"
      using e(3) by (simp add: upt_conv_Cons)
    let ?next = "events (readBottleData h env bottleId (retryCount + 1) (snd ?l))"
    from IH have "reads ?next \<le> 4 - (retryCount + 1)" by blast
    then have r: "Suc (reads ?next) \<le> 4 - retryCount" using e(3) by arith
    from IH have p: "prefix (sleeps ?next) (map backoff [retryCount + 1..<3])" by blast
    show ?thesis unfolding unfold upt using r p by simp
  next
    case False
    then have "events (readBottleData h env bottleId retryCount cache) = [] \<or>
               events (readBottleData h env bottleId retryCount cache) = [ContractRead]"
      by (subst (1 2) readBottleData.simps)
         (auto simp: events_def split: prod.splits option.splits read_outcome.splits)
    then show ?thesis using "1.prems" by auto
  qed
qed

text \<open>
  Claim C8. A call of \<open>readBottleData\<close> (with \<open>retryCount\<close> at its default 0) reads the
  contract at most 4 times, and the delays it waits are an initial part of 1 s, 2 s, 4 s.
  A read that throws in attempt \<open>k\<close> is retried exactly when the error is not a contract
  error, \<open>k < 3\<close> and the error is a network error, after \<open>min (2 ^ k * 1000) 8000\<close>
  milliseconds; otherwise the call returns \<open>null\<close> with no further attempt. The function
  is total, so every call returns.
\<close>

theorem readBottleData_retries:
  "reads (events (readBottleData h env bottleId 0 cache)) \<le> 4
   \<and> prefix (sleeps (events (readBottleData h env bottleId 0 cache))) [1000, 2000, 4000]
   \<and> (0 < bottleId \<and> contractConfigured h \<and> actuallyConnected h \<and> connectionStable h
       \<and> lookup_fresh (bottle_key bottleId) (5 * 60 * 1000) (checked_at (env k)) cache = (None, cache1)
       \<and> outcome (env k) = Threw e \<longrightarrow>
       readBottleData h env bottleId k cache =
         (if \<not> isContractError e \<and> k < 3 \<and> isNetworkError e
          then after_events [ContractRead, Sleep (min (2 ^ k * 1000) 8000)]
                 (readBottleData h env bottleId (k + 1) cache1)
          else (Null, cache1, [ContractRead])))"
proof -
  have upt3: "[0..<3] = [0, 1, 2::nat]" by (simp add: upt_conv_Cons)
  have "reads (events (readBottleData h env bottleId 0 cache)) \<le> 4 - 0 \<and>
        prefix (sleeps (events (readBottleData h env bottleId 0 cache))) (map backoff [0..<3])"
    by (rule readBottleData_bounded) simp
  then have bound: "reads (events (readBottleData h env bottleId 0 cache)) \<le> 4"
    and delays: "prefix (sleeps (events (readBottleData h env bottleId 0 cache))) [1000, 2000, 4000]"
    by (simp_all add: upt3 backoff_def)
  have step: "readBottleData h env bottleId k cache =
         (if \<not> isContractError e \<and> k < 3 \<and> isNetworkError e
          then after_events [ContractRead, Sleep (min (2 ^ k * 1000) 8000)]
                 (readBottleData h env bottleId (k + 1) cache1)
          else (Null, cache1, [ContractRead]))"
    if "0 < bottleId" "contractConfigured h" "actuallyConnected h" "connectionStable h"
      "lookup_fresh (bottle_key bottleId) (5 * 60 * 1000) (checked_at (env k)) cache = (None, cache1)"
      "outcome (env k) = Threw e"
    using that by (subst readBottleData.simps) simp
  show ?thesis using bound delays step by blast
qed

lemma always_failing_run:
  "readBottleData connected_hook always_failing 7 0 ([] :: (unit, unit) cache)
     = (Null, [], [ContractRead, Sleep 1000, ContractRead, Sleep 2000, ContractRead, Sleep 4000,
                   ContractRead])"
  by code_simp

lemma reverting_run:
  "readBottleData connected_hook reverting 7 0 ([] :: (unit, unit) cache) = (Null, [], [ContractRead])"
  by code_simp

lemma example_errors:
  "isNetworkError network_failure" "\<not> isContractError network_failure"
  "isContractError reverted_failure"
  by code_simp+

theorem readBottleData_retries_witness:
  "(0::int) < 7 \<and> contractConfigured connected_hook \<and> actuallyConnected connected_hook
   \<and> connectionStable connected_hook
   \<and> lookup_fresh (bottle_key 7) (5 * 60 * 1000) (checked_at (always_failing 0))
        ([] :: (unit, unit) cache) = (None, [])
   \<and> outcome (always_failing 0) = Threw network_failure
   \<and> isNetworkError network_failure \<and> \<not> isContractError network_failure
   \<and> readBottleData connected_hook always_failing 7 0 ([] :: (unit, unit) cache)
       = after_events [ContractRead, Sleep 1000]
           (readBottleData connected_hook always_failing 7 1 [])
   \<and> reads (events (readBottleData connected_hook always_failing 7 0 ([] :: (unit, unit) cache))) = 4
   \<and> sleeps (events (readBottleData connected_hook always_failing 7 0 ([] :: (unit, unit) cache)))
       = [1000, 2000, 4000]
   \<and> outcome (reverting 0) = Threw reverted_failure \<and> isContractError reverted_failure
   \<and> readBottleData connected_hook reverting 7 0 ([] :: (unit, unit) cache) = (Null, [], [ContractRead])"
proof -
  have h: "(0::int) < 7" "contractConfigured connected_hook" "actuallyConnected connected_hook"
    "connectionStable connected_hook"
    "lookup_fresh (bottle_key 7) (5 * 60 * 1000) (checked_at (always_failing 0))
        ([] :: (unit, unit) cache) = (None, [])"
    "lookup_fresh (bottle_key 7) (5 * 60 * 1000) (checked_at (reverting 0))
        ([] :: (unit, unit) cache) = (None, [])"
    "outcome (always_failing 0) = Threw network_failure"
    "outcome (reverting 0) = Threw reverted_failure"
    by (simp_all add: connected_hook_def actuallyConnected_def lookup_fresh_def Map_has_def
        always_failing_def reverting_def)
  have r: "reads (events (readBottleData connected_hook always_failing 7 0 ([] :: (unit, unit) cache))) = 4"
    "sleeps (events (readBottleData connected_hook always_failing 7 0 ([] :: (unit, unit) cache)))
       = [1000, 2000, 4000]"
    by (simp_all add: always_failing_run events_def)
  show ?thesis
    using readBottleData_retries[where h = connected_hook and env = always_failing
        and bottleId = 7 and cache = "[] :: (unit, unit) cache" and k = 0
        and ?cache1.0 = "[]" and e = network_failure]
      readBottleData_retries[where h = connected_hook and env = reverting
        and bottleId = 7 and cache = "[] :: (unit, unit) cache" and k = 0
        and ?cache1.0 = "[]" and e = reverted_failure]
      h r example_errors
    by simp
qed

section \<open>Properties of content validation\<close>












lemmas sanitize_defs = sanitizeBottleContent_def isSpace_def ascii_def DANGEROUS_PATTERNS_def
  element_def lit_def seqs_def test_def upper_def content_pattern_test_def contentChar_def
  replyChar_def punctuation_def isWord_def isLineTerminator_def Let_def MAX_LENGTHS_content_def



lemma greeting_accepted:
  "sanitizeBottleContent no_purify [0, 0, 0, 0, 0, 0, 0, 0, 0, 0, 0] (ascii '' hi '')
     = (Inr (ascii ''hi''), [0, 0, 0, 0, 0, 0, 0, 0, 0, 0, 0])"
  by (simp add: sanitize_defs trim_def no_purify_def)



lemma connected_hook_facts:
  "actuallyConnected connected_hook" "connectionStable connected_hook"
  "contractConfigured connected_hook"
  "limiter_id connected_hook = ''0x00000000000000000000000000000000000000aa''"
  by (simp_all add: connected_hook_def actuallyConnected_def limiter_id_def)

lemma recent_initial: "recent identifier now initial_client = 0"
  by (simp add: recent_def initial_client_def)




section \<open>Properties of the rate limiter\<close>

lemma isAllowed_eq:
  "isAllowed identifier m 60000 now (attempts c) =
     (if recent identifier now c \<ge> m
      then (False, (attempts c)(identifier \<mapsto> filter (\<lambda>t. t > now - 60000) (stored c identifier)))
      else (True, (attempts c)(identifier \<mapsto> filter (\<lambda>t. t > now - 60000) (stored c identifier) @ [now])))"
  by (simp add: isAllowed_def recent_def stored_def Let_def)

lemma key_of_inj: "key_of h k = key_of h k' \<Longrightarrow> k = k'"
  by (cases k; cases k') auto

lemma sendBottle_step:
  "let c' = snd (sendBottle h purify now wt content c);
       a = isAllowed (key_of h SendKind) 5 60000 now (attempts c)
   in (written c' = written c \<and> (attempts c' = attempts c \<or> attempts c' = snd a))
      \<or> (\<exists>w. written c' = written c @ [(now, w)] \<and> kind_of w = SendKind \<and> fst a
              \<and> attempts c' = snd a)"
  by (auto simp: sendBottle_def Let_def split: prod.splits bool.splits sum.splits option.splits)

lemma replyToBottle_step:
  "let c' = snd (replyToBottle h purify now wt bottleId content c);
       a = isAllowed (key_of h ReplyKind) 10 60000 now (attempts c)
   in (written c' = written c \<and> (attempts c' = attempts c \<or> attempts c' = snd a))
      \<or> (\<exists>w. written c' = written c @ [(now, w)] \<and> kind_of w = ReplyKind \<and> fst a
              \<and> attempts c' = snd a)"
  by (auto simp: replyToBottle_def Let_def split: prod.splits bool.splits sum.splits option.splits)

lemma skipBottle_step:
  "let c' = snd (skipBottle h now wt bottleId c);
       a = isAllowed (key_of h SkipKind) 20 60000 now (attempts c)
   in (written c' = written c \<and> (attempts c' = attempts c \<or> attempts c' = snd a))
      \<or> (\<exists>w. written c' = written c @ [(now, w)] \<and> kind_of w = SkipKind \<and> fst a
              \<and> attempts c' = snd a)"
  by (auto simp: skipBottle_def Let_def split: prod.splits bool.splits sum.splits option.splits)

lemma run_hook_call_step:
  "let c' = run_hook_call h purify (now, call) c;
       a = isAllowed (key_of h (call_kind call)) (limit_of (call_kind call)) 60000 now (attempts c)
   in (written c' = written c \<and> (attempts c' = attempts c \<or> attempts c' = snd a))
      \<or> (\<exists>w. written c' = written c @ [(now, w)] \<and> kind_of w = call_kind call \<and> fst a
              \<and> attempts c' = snd a)"
proof (cases call)
  case (CallSendBottle content wt)
  then show ?thesis using sendBottle_step[of h purify now wt content c] by simp
next
  case (CallReplyToBottle bottleId content wt)
  then show ?thesis using replyToBottle_step[of h purify now wt bottleId content c] by simp
next
  case (CallSkipBottle bottleId wt)
  then show ?thesis using skipBottle_step[of h now wt bottleId c] by simp
qed

lemma count_after_filter:
  "now - 60000 \<le> \<theta> \<Longrightarrow> count_after \<theta> (filter (\<lambda>t. t > now - 60000) ts) = count_after \<theta> ts"
  by (induction ts) (auto simp: count_after_def)

lemma count_after_append [simp]:
  "count_after \<theta> (xs @ ys) = count_after \<theta> xs + count_after \<theta> ys"
  by (simp add: count_after_def)

lemma count_after_mono: "\<theta> \<le> \<theta>' \<Longrightarrow> count_after \<theta>' ts \<le> count_after \<theta> ts"
  by (induction ts) (auto simp: count_after_def)

lemma count_after_all: "count_after \<theta> (filter (\<lambda>t. t > \<theta>) ts) = length (filter (\<lambda>t. t > \<theta>) ts)"
  by (simp add: count_after_def)

lemma in_window_le_count_after: "in_window T ts \<le> count_after (T - 60000) ts"
  by (induction ts) (auto simp: in_window_def count_after_def)

lemma in_window_append [simp]: "in_window T (xs @ ys) = in_window T xs + in_window T ys"
  by (simp add: in_window_def)

lemma write_times_append:
  "written c' = written c @ [(now, w)] \<Longrightarrow>
   write_times k c' = write_times k c @ (if kind_of w = k then [now] else [])"
  by (simp add: write_times_def)

lemma write_times_same: "written c' = written c \<Longrightarrow> write_times k c' = write_times k c"
  by (simp add: write_times_def)

lemma stored_after_isAllowed:
  "attempts c' = snd (isAllowed ident' m 60000 now (attempts c)) \<Longrightarrow>
   stored c' ident =
     (if ident = ident'
      then filter (\<lambda>t. t > now - 60000) (stored c ident) @ (if recent ident now c \<ge> m then [] else [now])
      else stored c ident)"
  by (simp add: isAllowed_eq) (simp add: stored_def)

lemma limiter_inv_mono:
  assumes "limiter_inv k h latest c" and "latest \<le> now"
    and "write_times k c' = write_times k c"
    and "stored c' (key_of h k) = stored c (key_of h k)"
  shows "limiter_inv k h now c'"
  using assms unfolding limiter_inv_def by force

lemma limiter_inv_step:
  assumes inv: "limiter_inv k h latest c" and le: "latest \<le> now"
  shows "limiter_inv k h now (run_hook_call h purify (now, call) c)"
proof -
  define c' where "c' = run_hook_call h purify (now, call) c"
  define ident where "ident = key_of h k"
  define m where "m = limit_of (call_kind call)"
  define a where "a = isAllowed (key_of h (call_kind call)) m 60000 now (attempts c)"
  define valid where "valid = filter (\<lambda>t. t > now - 60000) (stored c ident)"
  have steps: "(written c' = written c \<and> (attempts c' = attempts c \<or> attempts c' = snd a))
      \<or> (\<exists>w. written c' = written c @ [(now, w)] \<and> kind_of w = call_kind call \<and> fst a
              \<and> attempts c' = snd a)"
    using run_hook_call_step[of h purify now call c] by (simp add: c'_def a_def m_def Let_def)
  have i1: "\<And>\<theta>. latest - 60000 \<le> \<theta> \<Longrightarrow> count_after \<theta> (write_times k c) \<le> count_after \<theta> (stored c ident)"
    and i2: "\<And>T. in_window T (write_times k c) \<le> limit_of k"
    and i3: "\<And>t. t \<in> set (write_times k c) \<Longrightarrow> t \<le> latest"
    using inv by (auto simp: limiter_inv_def ident_def)
  have valid_count: "count_after \<theta> valid = count_after \<theta> (stored c ident)" if "now - 60000 \<le> \<theta>" for \<theta>
    using that by (simp add: valid_def count_after_filter)
  show ?thesis
  proof (cases "call_kind call = k")
    case other: False
    then have keys: "key_of h k \<noteq> key_of h (call_kind call)" using key_of_inj by blast
    have st: "stored c' (key_of h k) = stored c (key_of h k)"
      using steps keys stored_after_isAllowed[of c' "key_of h (call_kind call)" m now c "key_of h k"]
      by (auto simp: a_def stored_def)
    have wt: "write_times k c' = write_times k c"
      using steps other write_times_append[of c' c now _ k] write_times_same[of c' c k] by auto
    show ?thesis using limiter_inv_mono[OF inv le wt st] by (simp add: c'_def)
  next
    case same: True
    then have a_key: "a = isAllowed ident m 60000 now (attempts c)" and m_k: "m = limit_of k"
      by (simp_all add: a_def ident_def m_def)
    consider (untouched) "written c' = written c" "attempts c' = attempts c"
      | (limited) "written c' = written c" "attempts c' = snd a"
      | (wrote) w where "written c' = written c @ [(now, w)]" "kind_of w = k" "fst a"
          "attempts c' = snd a"
      using steps same by blast
    then show ?thesis
    proof cases
      case untouched
      then have "write_times k c' = write_times k c" "stored c' (key_of h k) = stored c (key_of h k)"
        by (simp_all add: write_times_def stored_def)
      then show ?thesis using limiter_inv_mono[OF inv le] by (simp add: c'_def)
    next
      case limited
      have st: "stored c' ident = valid @ (if recent ident now c \<ge> m then [] else [now])"
        using stored_after_isAllowed[of c' ident m now c ident] limited(2) a_key by (simp add: valid_def)
      have wt: "write_times k c' = write_times k c" using limited(1) by (rule write_times_same)
      have "count_after \<theta> (write_times k c') \<le> count_after \<theta> (stored c' ident)"
        if "now - 60000 \<le> \<theta>" for \<theta>
      proof -
        have "count_after \<theta> (write_times k c) \<le> count_after \<theta> (stored c ident)"
          using i1[of \<theta>] that le by simp
        also have "\<dots> = count_after \<theta> valid" using valid_count[OF that] by simp
        also have "\<dots> \<le> count_after \<theta> (stored c' ident)" by (simp add: st)
        finally show ?thesis by (simp add: wt)
      qed
      moreover have "\<And>t. t \<in> set (write_times k c') \<Longrightarrow> t \<le> now"
        using i3 le wt by force
      ultimately show ?thesis using i2 wt
        by (simp add: limiter_inv_def c'_def[symmetric] ident_def[symmetric])
    next
      case wrote
      have allowed: "recent ident now c < m" using wrote(3) a_key by (simp add: isAllowed_eq split: if_splits)
      have st: "stored c' ident = valid @ [now]"
        using stored_after_isAllowed[of c' ident m now c ident] wrote(4) a_key allowed
        by (simp add: valid_def)
      have wt: "write_times k c' = write_times k c @ [now]"
        using write_times_append[OF wrote(1), of k] wrote(2) by simp
      have len_valid: "length valid < limit_of k"
        using allowed m_k by (simp add: recent_def valid_def stored_def)
      have c1: "count_after \<theta> (write_times k c') \<le> count_after \<theta> (stored c' ident)"
        if "now - 60000 \<le> \<theta>" for \<theta>
      proof -
        have "count_after \<theta> (write_times k c) \<le> count_after \<theta> (stored c ident)"
          using i1[of \<theta>] that le by simp
        then have "count_after \<theta> (write_times k c) \<le> count_after \<theta> valid"
          using valid_count[OF that] by simp
        then show ?thesis by (simp add: wt st)
      qed
      have c2: "in_window T (write_times k c') \<le> limit_of k" for T
      proof (cases "T - 60000 < now \<and> now \<le> T")
        case False
        then have "in_window T (write_times k c') = in_window T (write_times k c)"
          by (auto simp: wt in_window_def)
        then show ?thesis using i2[of T] by simp
      next
        case True
        have "in_window T (write_times k c) \<le> count_after (T - 60000) (write_times k c)"
          by (rule in_window_le_count_after)
        also have "\<dots> \<le> count_after (T - 60000) (stored c ident)"
          using i1[of "T - 60000"] True le by simp
        also have "\<dots> \<le> count_after (now - 60000) (stored c ident)"
          using True by (intro count_after_mono) simp
        also have "\<dots> = length valid" by (simp add: count_after_def valid_def)
        finally have "in_window T (write_times k c) < limit_of k" using len_valid by simp
        then show ?thesis using True by (simp add: wt in_window_def)
      qed
      have c3: "\<And>t. t \<in> set (write_times k c') \<Longrightarrow> t \<le> now"
        using i3 le wt by force
      show ?thesis using c1 c2 c3
        by (simp add: limiter_inv_def c'_def[symmetric] ident_def[symmetric])
    qed
  qed
qed

lemma limiter_inv_initial: "limiter_inv k h latest initial_client"
  by (simp add: limiter_inv_def initial_client_def write_times_def stored_def in_window_def
      count_after_def)

lemma limiter_inv_session:
  assumes "limiter_inv k h latest c" and "sorted (map fst calls)"
    and "\<forall>t\<in>set (map fst calls). latest \<le> t"
  shows "\<exists>latest'. limiter_inv k h latest' (run_session h purify calls c)"
  using assms
proof (induction calls arbitrary: c latest)
  case Nil
  then show ?case by auto
next
  case (Cons call calls)
  obtain now x where call: "call = (now, x)" by (cases call)
  have "limiter_inv k h now (run_hook_call h purify (now, x) c)"
    using Cons.prems call by (intro limiter_inv_step[of k h latest]) auto
  moreover have "sorted (map fst calls)" "\<forall>t\<in>set (map fst calls). now \<le> t"
    using Cons.prems(2) call by auto
  ultimately show ?case using Cons.IH[of now "run_hook_call h purify (now, x) c"] call by simp
qed

lemma sendBottle_limited:
  assumes "actuallyConnected h" "connectionStable h" "contractConfigured h"
  shows "recent (limiter_id h) now c \<ge> 5 \<Longrightarrow>
           fst (sendBottle h purify now wt content c) = Inl RateLimit \<and>
           written (snd (sendBottle h purify now wt content c)) = written c"
    and "recent (limiter_id h) now c < 5 \<Longrightarrow>
           fst (sendBottle h purify now wt content c) \<noteq> Inl RateLimit"
  using assms
  by (auto simp: sendBottle_def isAllowed_eq split: prod.splits sum.splits option.splits)

lemma replyToBottle_limited:
  assumes "actuallyConnected h" "connectionStable h" "contractConfigured h"
    "validateBottleId bottleId"
  shows "recent (limiter_id h @ ''_reply'') now c \<ge> 10 \<Longrightarrow>
           fst (replyToBottle h purify now wt bottleId content c) = Inl RateLimit \<and>
           written (snd (replyToBottle h purify now wt bottleId content c)) = written c"
    and "recent (limiter_id h @ ''_reply'') now c < 10 \<Longrightarrow>
           fst (replyToBottle h purify now wt bottleId content c) \<noteq> Inl RateLimit"
  using assms
  by (auto simp: replyToBottle_def isAllowed_eq split: prod.splits sum.splits option.splits)

lemma skipBottle_limited:
  assumes "actuallyConnected h" "connectionStable h" "contractConfigured h"
    "validateBottleId bottleId"
  shows "recent (limiter_id h @ ''_skip'') now c \<ge> 20 \<Longrightarrow>
           fst (skipBottle h now wt bottleId c) = Inl RateLimit \<and>
           written (snd (skipBottle h now wt bottleId c)) = written c"
    and "recent (limiter_id h @ ''_skip'') now c < 20 \<Longrightarrow>
           fst (skipBottle h now wt bottleId c) \<noteq> Inl RateLimit"
  using assms
  by (auto simp: skipBottle_def isAllowed_eq split: prod.splits sum.splits option.splits)

text \<open>
  Claim C9. For a connected account (and, for replies and skips, a valid bottle id): a
  call of \<open>sendBottle\<close>, \<open>replyToBottle\<close> or \<open>skipBottle\<close> made while the limiter holds 5,
  10, resp. 20 attempts of the last 60 seconds under the account's key for that action
  fails with the rate-limit error and requests no ledger write; a call made while it
  holds fewer is not rejected by the limiter. In every session of one account, with the
  calls in the order of their times, the ledger writes of each kind requested within any
  window of 60 seconds number at most 5 sends, 10 replies and 20 skips.
\<close>

theorem rate_limits_enforced:
  "(actuallyConnected h \<and> connectionStable h \<and> contractConfigured h \<longrightarrow>
      (5 \<le> recent (limiter_id h) now c \<longrightarrow>
         fst (sendBottle h purify now wt content c) = Inl RateLimit \<and>
         written (snd (sendBottle h purify now wt content c)) = written c)
      \<and> (recent (limiter_id h) now c < 5 \<longrightarrow>
           fst (sendBottle h purify now wt content c) \<noteq> Inl RateLimit)
      \<and> (validateBottleId bottleId \<longrightarrow>
           (10 \<le> recent (limiter_id h @ ''_reply'') now c \<longrightarrow>
              fst (replyToBottle h purify now wt bottleId content c) = Inl RateLimit \<and>
              written (snd (replyToBottle h purify now wt bottleId content c)) = written c)
           \<and> (recent (limiter_id h @ ''_reply'') now c < 10 \<longrightarrow>
                fst (replyToBottle h purify now wt bottleId content c) \<noteq> Inl RateLimit)
           \<and> (20 \<le> recent (limiter_id h @ ''_skip'') now c \<longrightarrow>
                fst (skipBottle h now wt bottleId c) = Inl RateLimit \<and>
                written (snd (skipBottle h now wt bottleId c)) = written c)
           \<and> (recent (limiter_id h @ ''_skip'') now c < 20 \<longrightarrow>
                fst (skipBottle h now wt bottleId c) \<noteq> Inl RateLimit)))
   \<and> (sorted (map fst calls) \<longrightarrow>
        in_window T (write_times k (run_session h purify calls initial_client)) \<le> limit_of k)"
proof -
  have session: "in_window T (write_times k (run_session h purify calls initial_client)) \<le> limit_of k"
    if s: "sorted (map fst calls)"
  proof (cases calls)
    case Nil
    then show ?thesis by (simp add: write_times_def initial_client_def in_window_def)
  next
    case (Cons call rest)
    have "limiter_inv k h (fst call) initial_client" by (rule limiter_inv_initial)
    moreover have "\<forall>t\<in>set (map fst calls). fst call \<le> t" using s Cons by auto
    ultimately obtain latest' where
      "limiter_inv k h latest' (run_session h purify calls initial_client)"
      using limiter_inv_session[OF _ s] by blast
    then show ?thesis by (simp add: limiter_inv_def)
  qed
  show ?thesis
    using sendBottle_limited[of h now c purify wt content]
      replyToBottle_limited[of h bottleId now c purify wt content]
      skipBottle_limited[of h bottleId now c wt] session
    by blast
qed

lemma recent_busy: "recent identifier 100 busy_client = 20"
  by (simp add: recent_def busy_client_def)

lemma one_send_session:
  "write_times SendKind
     (run_session connected_hook no_purify [(0, CallSendBottle (ascii '' hi '') None)] initial_client)
     = [0]"
  using greeting_accepted
  by (simp add: sendBottle_def connected_hook_facts isAllowed_def initial_client_def
      write_times_def)

theorem rate_limits_enforced_witness:
  "actuallyConnected connected_hook \<and> connectionStable connected_hook
   \<and> contractConfigured connected_hook \<and> validateBottleId 1
   \<and> 5 \<le> recent (limiter_id connected_hook) 100 busy_client
   \<and> 10 \<le> recent (limiter_id connected_hook @ ''_reply'') 100 busy_client
   \<and> 20 \<le> recent (limiter_id connected_hook @ ''_skip'') 100 busy_client
   \<and> fst (sendBottle connected_hook no_purify 100 None (ascii '' hi '') busy_client) = Inl RateLimit
   \<and> written (snd (sendBottle connected_hook no_purify 100 None (ascii '' hi '') busy_client)) = []
   \<and> fst (replyToBottle connected_hook no_purify 100 None 1 (ascii '' hi '') busy_client) = Inl RateLimit
   \<and> fst (skipBottle connected_hook 100 None 1 busy_client) = Inl RateLimit
   \<and> recent (limiter_id connected_hook) 100 initial_client < 5
   \<and> recent (limiter_id connected_hook @ ''_reply'') 100 initial_client < 10
   \<and> recent (limiter_id connected_hook @ ''_skip'') 100 initial_client < 20
   \<and> fst (sendBottle connected_hook no_purify 100 None (ascii '' hi '') initial_client) \<noteq> Inl RateLimit
   \<and> fst (replyToBottle connected_hook no_purify 100 None 1 (ascii '' hi '') initial_client) \<noteq> Inl RateLimit
   \<and> fst (skipBottle connected_hook 100 None 1 initial_client) \<noteq> Inl RateLimit
   \<and> sorted (map fst [(0 :: int, CallSendBottle (ascii '' hi '') None)])
   \<and> in_window 0 (write_times SendKind
        (run_session connected_hook no_purify [(0, CallSendBottle (ascii '' hi '') None)] initial_client))
       = 1
   \<and> (1 :: nat) \<le> limit_of SendKind"
proof -
  have v: "validateBottleId 1" by (simp add: validateBottleId_def)
  have w: "written busy_client = []" by (simp add: busy_client_def)
  have s: "sorted (map fst [(0 :: int, CallSendBottle (ascii '' hi '') None)])" by simp
  show ?thesis
    using rate_limits_enforced[where h = connected_hook and now = 100 and c = busy_client
        and purify = no_purify and wt = None and content = "ascii '' hi ''" and bottleId = 1
        and calls = "[(0, CallSendBottle (ascii '' hi '') None)]" and T = 0 and k = SendKind]
      rate_limits_enforced[where h = connected_hook and now = 100 and c = initial_client
        and purify = no_purify and wt = None and content = "ascii '' hi ''" and bottleId = 1
        and calls = "[(0, CallSendBottle (ascii '' hi '') None)]" and T = 0 and k = SendKind]
      connected_hook_facts(1-3) v w s recent_busy recent_initial one_send_session
    by (simp add: in_window_def)
qed

section \<open>Properties of the receive page\<close>


lemma draws_simps [simp]:
  "draws [] = 0"
  "draws (GetRandomBottle # evs) = Suc (draws evs)"
  "draws (ReadBottleData i # evs) = draws evs"
  "draws (ReadBottleReplies i # evs) = draws evs"
  "draws (Toast t # evs) = draws evs"
  "draws (Timer ms # evs) = draws evs"
  "draws (Unhandled # evs) = draws evs"
  "draws (xs @ ys) = draws xs + draws ys"
  by (simp_all add: draws_def)

lemma snd_after_ui [simp]: "snd (after_ui evs r) = evs @ snd r"
  by (cases r) (simp add: after_ui_def)

lemma fst_after_ui [simp]: "fst (after_ui evs r) = fst r"
  by (cases r) (simp add: after_ui_def)

lemma fetchBottleData_no_draw: "draws (snd (fetchBottleData addr fenv bottleId retryCount p)) = 0"
proof (induction addr fenv bottleId retryCount p rule: fetchBottleData.induct)
  case (1 addr fenv bottleId retryCount p)
  show ?case
  proof (cases "f_bottle (fenv retryCount) = None \<and> retryCount < 2")
    case True
    then show ?thesis using "1.IH" by (subst fetchBottleData.simps) simp
  next
    case False
    then show ?thesis by (subst fetchBottleData.simps) (auto simp: Let_def split: option.splits)
  qed
qed







lemma draws_shown [simp]:
  "draws (snd (case fetchBottleData addr fenv bottleId 0 p of (p2, evs) \<Rightarrow> (f p2, evs))) = 0"
  using fetchBottleData_no_draw[of addr fenv bottleId 0 p]
  by (cases "fetchBottleData addr fenv bottleId 0 p") simp







text \<open>
  Claim C6. With a bottle on display, \<open>handleSkip\<close> leaves the client state of the hook
  as it is (no ledger write is requested, the rate limiter is not consulted): it only
  starts the removal animation and a timer of 300 ms, whose callback clears the current
  bottle, the reply form and the reply draft. The hook's \<open>skipBottle\<close>, which the handler
  does not call, would request the ledger write \<open>skipBottle(bottleId)\<close>.
\<close>

theorem handleSkip_is_local:
  "(currentBottle p \<noteq> None \<longrightarrow>
      handleSkip (p, c) = ((p\<lparr>isRemoving := True\<rparr>, c), [Timer 300])
      \<and> written (snd (fst (handleSkip (p, c)))) = written c
      \<and> attempts (snd (fst (handleSkip (p, c)))) = attempts c
      \<and> skip_timer (fst (fst (handleSkip (p, c))))
          = p\<lparr>currentBottle := None, showReplyForm := False, reply := [], isRemoving := False\<rparr>)
   \<and> (actuallyConnected h \<and> connectionStable h \<and> contractConfigured h
        \<and> validateBottleId bottleId \<and> recent (limiter_id h @ ''_skip'') now c < 20 \<longrightarrow>
        written (snd (skipBottle h now wt bottleId c)) = written c @ [(now, WriteSkipBottle bottleId)])"
  by (auto simp: handleSkip_def skip_timer_def skipBottle_def isAllowed_eq)

theorem handleSkip_is_local_witness:
  "currentBottle shown_page \<noteq> None
   \<and> handleSkip (shown_page, initial_client)
       = ((shown_page\<lparr>isRemoving := True\<rparr>, initial_client), [Timer 300])
   \<and> written (snd (fst (handleSkip (shown_page, initial_client)))) = written initial_client
   \<and> skip_timer (fst (fst (handleSkip (shown_page, initial_client))))
       = shown_page\<lparr>currentBottle := None, showReplyForm := False, reply := [], isRemoving := False\<rparr>
   \<and> actuallyConnected connected_hook \<and> connectionStable connected_hook
   \<and> contractConfigured connected_hook \<and> validateBottleId 1
   \<and> recent (limiter_id connected_hook @ ''_skip'') 0 initial_client < 20
   \<and> written (snd (skipBottle connected_hook 0 None 1 initial_client))
       = written initial_client @ [(0, WriteSkipBottle 1)]"
proof -
  have h: "currentBottle shown_page \<noteq> None" "validateBottleId 1"
    "recent (limiter_id connected_hook @ ''_skip'') 0 initial_client < 20"
    by (simp_all add: shown_page_def validateBottleId_def recent_initial)
  show ?thesis
    using handleSkip_is_local[where p = shown_page and c = initial_client and h = connected_hook
        and bottleId = 1 and now = 0 and wt = None]
      connected_hook_facts(1-3) h
    by blast
qed

section \<open>Properties of replying\<close>

lemma tx_cases:
  "apply_tx m t l = Inr l' \<Longrightarrow>
   (\<exists>content. t = TxSendBottle content \<and> ledger_sendBottle m content l = Inr l')
   \<or> (\<exists>b content. t = TxReplyToBottle b content \<and> ledger_replyToBottle m b content l = Inr l')
   \<or> (\<exists>r content. t = TxReplyToReply r content \<and> ledger_replyToReply m r content l = Inr l')
   \<or> (\<exists>b. t = TxSkipBottle b \<and> ledger_skipBottle m b l = Inr l')
   \<or> (\<exists>b. t = TxDeactivateBottle b \<and> ledger_deactivateBottle m b l = Inr l')"
  by (cases t) auto

lemma apply_tx_keeps:
  assumes "apply_tx m t l = Inr l'"
  shows "hasUserReplied l k \<longrightarrow> hasUserReplied l' k"
    and "bottleIdCounter l \<le> bottleIdCounter l'"
    and "bottleExists b l \<longrightarrow> bottle_sender (bottles l' b) = bottle_sender (bottles l b)"
  using tx_cases[OF assms]
  by (auto simp: ledger_sendBottle_def ledger_replyToBottle_def ledger_replyToReply_def
      ledger_skipBottle_def ledger_deactivateBottle_def add_reply_def Let_def bottleExists_def
      split: if_splits)

lemma commit_keeps:
  "hasUserReplied l k \<longrightarrow> hasUserReplied (commit t l) k"
  "bottleIdCounter l \<le> bottleIdCounter (commit t l)"
  "bottleExists b l \<longrightarrow> bottle_sender (bottles (commit t l) b) = bottle_sender (bottles l b)"
  using apply_tx_keeps[of "fst t" "snd t" l]
  by (auto simp: commit_def split: sum.splits)

lemma run_txs_keeps:
  "hasUserReplied l k \<Longrightarrow> hasUserReplied (run_txs ts l) k"
  "bottleExists b l \<Longrightarrow> bottleExists b (run_txs ts l)
     \<and> bottle_sender (bottles (run_txs ts l) b) = bottle_sender (bottles l b)"
proof (induction ts arbitrary: l)
  case Nil
  { case 1 then show ?case by simp }
  { case 2 then show ?case by simp }
next
  case (Cons t ts)
  { case 1
    then have "hasUserReplied (commit t l) k" using commit_keeps(1) by blast
    then show ?case using Cons.IH(1) by simp }
  { case 2
    then have e: "bottleExists b (commit t l)"
      using commit_keeps(2)[of l t] by (simp add: bottleExists_def)
    have s: "bottle_sender (bottles (commit t l) b) = bottle_sender (bottles l b)"
      using 2 commit_keeps(3) by blast
    show ?case using Cons.IH(2)[OF e] s by simp }
qed

lemma replyToBottle_success:
  assumes "ledger_replyToBottle m b content l = Inr l'"
  shows "hasUserReplied l' (msg_sender m, b)" "bottleExists b l'"
    "bottle_sender (bottles l' b) \<noteq> msg_sender m"
  using assms
  by (auto simp: ledger_replyToBottle_def add_reply_def Let_def bottleExists_def split: if_splits)

text \<open>
  Claim C2, as amended. On the ledger, once \<open>replyToBottle\<close> has succeeded for a user and
  a bottle, every later \<open>replyToBottle\<close> of that user on that bottle fails, whatever
  transactions of any account come in between: with a valid content and the bottle still
  active the failure is \<open>Already replied to this bottle\<close>, and \<open>hasUserRepliedToBottle\<close>
  stays true. The reply-permission check of the client is a different one: it refuses
  when the displayed bottle is the user's own or when the last reply shown is the
  user's, and allows a reply in every other case.
\<close>

theorem one_reply_per_user:
  "(ledger_replyToBottle m b content l = Inr l1 \<and> msg_sender m' = msg_sender m \<longrightarrow>
      ledger_replyToBottle m' b content' (run_txs txs l1) =
        Inl (Revert (if length content' = 0 then ''Reply content cannot be empty''
                     else if length content' > 1000 then ''Reply content too long''
                     else if \<not> isActive (bottles (run_txs txs l1) b) then ''Bottle is not active''
                     else ''Already replied to this bottle''))
      \<and> hasUserRepliedToBottle (msg_sender m) b (run_txs txs l1))
   \<and> canReply (checkReplyPermissions addr bottleData p) =
       (Some (b_sender bottleData) \<noteq> addr
        \<and> (b_replies bottleData = [] \<or> Some (r_replier (last (b_replies bottleData))) \<noteq> addr))"
proof -
  have ledger_part:
    "ledger_replyToBottle m' b content' (run_txs txs l1) =
        Inl (Revert (if length content' = 0 then ''Reply content cannot be empty''
                     else if length content' > 1000 then ''Reply content too long''
                     else if \<not> isActive (bottles (run_txs txs l1) b) then ''Bottle is not active''
                     else ''Already replied to this bottle''))
      \<and> hasUserRepliedToBottle (msg_sender m) b (run_txs txs l1)"
    if ok: "ledger_replyToBottle m b content l = Inr l1" and same: "msg_sender m' = msg_sender m"
  proof -
    let ?l = "run_txs txs l1"
    have r: "hasUserReplied ?l (msg_sender m, b)"
      using replyToBottle_success(1)[OF ok] by (rule run_txs_keeps(1))
    have e: "bottleExists b ?l" and s: "bottle_sender (bottles ?l b) \<noteq> msg_sender m"
      using run_txs_keeps(2)[OF replyToBottle_success(2)[OF ok], of txs]
        replyToBottle_success(3)[OF ok] by simp_all
    show ?thesis using r e s same
      by (simp add: ledger_replyToBottle_def hasUserRepliedToBottle_def)
  qed
  have client_part: "canReply (checkReplyPermissions addr bottleData p) =
       (Some (b_sender bottleData) \<noteq> addr
        \<and> (b_replies bottleData = [] \<or> Some (r_replier (last (b_replies bottleData))) \<noteq> addr))"
    by (simp add: checkReplyPermissions_def)
  show ?thesis using ledger_part client_part by blast
qed

lemma bob_replies: "ledger_replyToBottle (at_time bob 20) 1 ''hello'' one_bottle = Inr after_bob"
  by (simp add: after_bob_def one_bottle_def commit_def ledger_replyToBottle_def
      ledger_sendBottle_def deployed_def at_time_def bottleExists_def alice_def bob_def Let_def)

lemma bottle_still_active:
  "isActive (bottles (run_txs [(at_time carol 30, TxReplyToBottle 1 ''hey'')] after_bob) 1)"
  by (simp add: after_bob_def one_bottle_def commit_def ledger_replyToBottle_def
      ledger_sendBottle_def deployed_def at_time_def bottleExists_def alice_def bob_def carol_def
      add_reply_def Let_def)

theorem one_reply_per_user_witness:
  "ledger_replyToBottle (at_time bob 20) 1 ''hello'' one_bottle = Inr after_bob
   \<and> msg_sender (at_time bob 40) = msg_sender (at_time bob 20)
   \<and> ledger_replyToBottle (at_time bob 40) 1 ''again''
        (run_txs [(at_time carol 30, TxReplyToBottle 1 ''hey'')] after_bob)
       = Inl (Revert ''Already replied to this bottle'')
   \<and> hasUserRepliedToBottle bob 1 (run_txs [(at_time carol 30, TxReplyToBottle 1 ''hey'')] after_bob)
   \<and> canReply (checkReplyPermissions (Some carol) displayed_after_carol empty_page) = False"
proof -
  have same: "msg_sender (at_time bob 40) = msg_sender (at_time bob 20)" "msg_sender (at_time bob 20) = bob"
    by (simp_all add: at_time_def)
  have shown: "b_replies displayed_after_carol \<noteq> []"
    "Some (r_replier (last (b_replies displayed_after_carol))) = Some carol"
    "Some (b_sender displayed_after_carol) \<noteq> Some carol"
    by (simp_all add: displayed_after_carol_def alice_def carol_def)
  show ?thesis
    using one_reply_per_user[where m = "at_time bob 20" and b = 1 and content = "''hello''"
        and l = one_bottle and ?l1.0 = after_bob and m' = "at_time bob 40"
        and content' = "''again''" and txs = "[(at_time carol 30, TxReplyToBottle 1 ''hey'')]"
        and addr = "Some carol" and bottleData = displayed_after_carol and p = empty_page]
      bob_replies same bottle_still_active shown
    by simp
qed

text \<open>
  Claim C2 as stated fails for the client check. Bob has replied to bottle 1 and Carol
  has replied after him; the page that shows the bottle to Bob allows him to reply
  again, because the last reply is not his.
\<close>

theorem reply_check_counterexample:
  "hasUserRepliedToBottle bob 1 (run_txs [(at_time carol 30, TxReplyToBottle 1 ''hey'')] after_bob)
   \<and> r_replier (hd (b_replies displayed_after_carol)) = bob
   \<and> canReply (checkReplyPermissions (Some bob) displayed_after_carol empty_page)"
proof -
  have "hasUserReplied after_bob (bob, 1)"
    using replyToBottle_success(1)[OF bob_replies] by (simp add: at_time_def)
  then have "hasUserRepliedToBottle bob 1
      (run_txs [(at_time carol 30, TxReplyToBottle 1 ''hey'')] after_bob)"
    unfolding hasUserRepliedToBottle_def by (rule run_txs_keeps(1))
  then show ?thesis
    by (simp add: displayed_after_carol_def checkReplyPermissions_def alice_def bob_def carol_def)
qed

section \<open>Properties of the persistent cache\<close>

text \<open>
  Claim C7, as amended. In the browser, \<open>loadBottleDataFromCache(address)\<close> returns a
  state only if that state is stored under the key of the address, is at most 30 minutes
  old and carries the lower-cased address as its user address, and then the storage is
  unchanged. An entry older than 30 minutes is removed and \<open>null\<close> is returned; an entry
  within the 30 minutes that carries another user address gives \<open>null\<close> and is left in
  place. What \<open>saveBottleDataToCache\<close> writes for an address is returned, while at most
  30 minutes old, for every spelling of that address that differs only in case.
\<close>

theorem cache_load_fresh_and_own:
  "(fst (loadBottleDataFromCache True now addr st) = Some d \<longrightarrow>
      st (getCacheKey addr) = Some (Json d) \<and> now - lastUpdated d \<le> 30 * 60 * 1000
      \<and> userAddress d = toLowerCase addr \<and> snd (loadBottleDataFromCache True now addr st) = st)
   \<and> (st (getCacheKey addr) = Some (Json d) \<and> now - lastUpdated d > 30 * 60 * 1000 \<longrightarrow>
        loadBottleDataFromCache True now addr st = (None, st(getCacheKey addr := None)))
   \<and> (st (getCacheKey addr) = Some (Json d) \<and> now - lastUpdated d \<le> 30 * 60 * 1000
        \<and> userAddress d \<noteq> toLowerCase addr \<longrightarrow>
        loadBottleDataFromCache True now addr st = (None, st))
   \<and> (st (getCacheKey saver) = Some (Json (cacheData saver t d0))
        \<and> toLowerCase addr = toLowerCase saver \<and> now - t \<le> 30 * 60 * 1000 \<longrightarrow>
        loadBottleDataFromCache True now addr st = (Some (cacheData saver t d0), st))"
proof -
  have key: "getCacheKey addr = getCacheKey saver" if "toLowerCase addr = toLowerCase saver"
    using that by (simp add: getCacheKey_def)
  have a: "fst (loadBottleDataFromCache True now addr st) = Some d \<longrightarrow>
      st (getCacheKey addr) = Some (Json d) \<and> now - lastUpdated d \<le> 30 * 60 * 1000
      \<and> userAddress d = toLowerCase addr \<and> snd (loadBottleDataFromCache True now addr st) = st"
    by (auto simp: loadBottleDataFromCache_def CACHE_EXPIRY_TIME_def
        split: option.splits item.splits if_splits)
  have b: "st (getCacheKey addr) = Some (Json d) \<and> now - lastUpdated d > 30 * 60 * 1000 \<longrightarrow>
        loadBottleDataFromCache True now addr st = (None, st(getCacheKey addr := None))"
    by (simp add: loadBottleDataFromCache_def CACHE_EXPIRY_TIME_def)
  have c: "st (getCacheKey addr) = Some (Json d) \<and> now - lastUpdated d \<le> 30 * 60 * 1000
        \<and> userAddress d \<noteq> toLowerCase addr \<longrightarrow>
        loadBottleDataFromCache True now addr st = (None, st)"
    by (simp add: loadBottleDataFromCache_def CACHE_EXPIRY_TIME_def)
  have e: "st (getCacheKey saver) = Some (Json (cacheData saver t d0))
        \<and> toLowerCase addr = toLowerCase saver \<and> now - t \<le> 30 * 60 * 1000 \<longrightarrow>
        loadBottleDataFromCache True now addr st = (Some (cacheData saver t d0), st)"
    using key by (auto simp: loadBottleDataFromCache_def CACHE_EXPIRY_TIME_def cacheData_def)
  show ?thesis using a b c e by blast
qed

lemma lower_facts: "toLowerCase ''0xab'' = ''0xab''" "toLowerCase ''0xAB'' = ''0xab''"
  by (simp_all add: toLowerCase_def lower_char_def)

lemma same_lower: "toLowerCase ''0xab'' = toLowerCase ''0xAB''"
  by (simp add: lower_facts)

lemma saved_facts:
  "saved_storage (getCacheKey ''0xab'') = Some (Json saved_state)"
  "foreign_storage (getCacheKey ''0xab'') = Some (Json (saved_state\<lparr>userAddress := ''0xcd''\<rparr>))"
  "lastUpdated saved_state = 1000" "userAddress saved_state = ''0xab''"
  by (simp_all add: saved_storage_def foreign_storage_def saved_state_def cacheData_def
      getCacheKey_def lower_facts)

theorem cache_load_fresh_and_own_witness:
  "saved_storage (getCacheKey ''0xab'') = Some (Json saved_state)
   \<and> toLowerCase ''0xab'' = toLowerCase ''0xAB''
   \<and> (1500 :: int) - 1000 \<le> 30 * 60 * 1000
   \<and> loadBottleDataFromCache True 1500 ''0xab'' saved_storage = (Some saved_state, saved_storage)
   \<and> fst (loadBottleDataFromCache True 1500 ''0xab'' saved_storage) = Some saved_state
   \<and> (1801001 :: int) - lastUpdated saved_state > 30 * 60 * 1000
   \<and> loadBottleDataFromCache True 1801001 ''0xab'' saved_storage
       = (None, saved_storage(getCacheKey ''0xab'' := None))
   \<and> foreign_storage (getCacheKey ''0xab'') = Some (Json (saved_state\<lparr>userAddress := ''0xcd''\<rparr>))
   \<and> userAddress (saved_state\<lparr>userAddress := ''0xcd''\<rparr>) \<noteq> toLowerCase ''0xab''
   \<and> loadBottleDataFromCache True 1500 ''0xab'' foreign_storage = (None, foreign_storage)"
proof -
  have s: "saved_storage (getCacheKey ''0xAB'') = Some (Json (cacheData ''0xAB'' 1000
             \<lparr>cached_data = (), lastUpdated = 0, userAddress = []\<rparr>))"
    by (simp add: saved_storage_def saved_state_def)
  have ages: "(1500 :: int) - 1000 \<le> 30 * 60 * 1000"
    "(1801001 :: int) - lastUpdated saved_state > 30 * 60 * 1000"
    "1500 - lastUpdated (saved_state\<lparr>userAddress := ''0xcd''\<rparr>) \<le> 30 * 60 * 1000"
    "userAddress (saved_state\<lparr>userAddress := ''0xcd''\<rparr>) \<noteq> toLowerCase ''0xab''"
    by (simp_all add: saved_facts lower_facts)
  have r1: "loadBottleDataFromCache True 1500 ''0xab'' saved_storage = (Some saved_state, saved_storage)"
    using cache_load_fresh_and_own[where st = saved_storage and saver = "''0xAB''" and t = 1000
        and ?d0.0 = "\<lparr>cached_data = (), lastUpdated = 0, userAddress = []\<rparr>" and addr = "''0xab''"
        and now = 1500] s same_lower ages(1)
    by (simp add: saved_state_def)
  have r2: "loadBottleDataFromCache True 1801001 ''0xab'' saved_storage
       = (None, saved_storage(getCacheKey ''0xab'' := None))"
    using cache_load_fresh_and_own[where st = saved_storage and d = saved_state and addr = "''0xab''"
        and now = 1801001] saved_facts(1) ages(2)
    by blast
  have r3: "loadBottleDataFromCache True 1500 ''0xab'' foreign_storage = (None, foreign_storage)"
    using cache_load_fresh_and_own[where st = foreign_storage
        and d = "saved_state\<lparr>userAddress := ''0xcd''\<rparr>" and addr = "''0xab''" and now = 1500]
      saved_facts(2) ages(3,4)
    by blast
  show ?thesis using r1 r2 r3 saved_facts(1,2) same_lower ages by simp
qed

text \<open>
  Claim C7 as stated fails at the boundary: a state that is exactly 30 minutes old, and
  so not less than 30 minutes old, is returned.
\<close>

theorem cache_age_counterexample:
  "(1801000 :: int) - lastUpdated saved_state = 30 * 60 * 1000
   \<and> loadBottleDataFromCache True 1801000 ''0xab'' saved_storage = (Some saved_state, saved_storage)"
  by (simp add: loadBottleDataFromCache_def saved_facts lower_facts CACHE_EXPIRY_TIME_def)

end
